theory Spec2Isabelle
  imports Main "HOL-Library.Word"
begin

section \<open>JavaScript strings\<close>

text \<open>
  A JavaScript string is a sequence of 16-bit UTF-16 code units. String literals of the
  page that are pure ASCII are written with \<open>js\<close>; the one literal with a non-ASCII
  character (the ellipsis U+2026 of the status shown while a job starts) is spelled out.
\<close>

type_synonym code_unit = "16 word"
type_synonym jstring = "code_unit list"

definition js :: "string \<Rightarrow> jstring" where
  "js cs = map of_char cs"

section \<open>Parsing the club ids\<close>

text \<open>
  \<^verbatim>\<open>input.split(/[\n,]+/).map((part) => part.trim()).filter(Boolean)\<close>

  \<open>split\<close> with the pattern \<^verbatim>\<open>[\n,]+\<close> cuts the input at every maximal run of
  line feeds and commas: it searches the next separator from the end of the last match,
  emits the text in between (possibly empty, at the start of the input) and resumes after
  the run; the text after the last run (possibly empty) is the last piece. The empty
  input gives one empty piece.
\<close>

definition is_separator :: "code_unit \<Rightarrow> bool" where
  "is_separator c \<longleftrightarrow> c = 0x0A \<or> c = 0x2C"

function split_separators :: "jstring \<Rightarrow> jstring list" where
  "split_separators input =
     (let piece = takeWhile (\<lambda>c. \<not> is_separator c) input;
          rest = dropWhile (\<lambda>c. \<not> is_separator c) input
      in if rest = [] then [piece]
         else piece # split_separators (dropWhile is_separator rest))"
  by pat_completeness auto
termination
proof (relation "measure length", goal_cases)
  case 1
  show ?case by simp
next
  case (2 input piece rest)
  then obtain c cs where rest: "rest = c # cs" and c: "is_separator c"
    by (metis hd_dropWhile list.exhaust_sel)
  have "length (dropWhile is_separator rest) \<le> length cs"
    using rest c by (simp add: length_dropWhile_le)
  moreover have "length rest \<le> length input"
    using 2 by (simp add: length_dropWhile_le)
  ultimately show ?case
    using rest by simp
qed

declare split_separators.simps [simp del]

text \<open>
  \<open>String.prototype.trim\<close> removes, at both ends, the code units that ECMAScript
  calls WhiteSpace (tab, vertical tab, form feed, space, no-break space, the byte order
  mark and the other space separators of Unicode) or LineTerminator (line feed, carriage
  return, line separator, paragraph separator).
\<close>

definition is_white_space :: "code_unit \<Rightarrow> bool" where
  "is_white_space c \<longleftrightarrow>
     c = 0x09 \<or> c = 0x0B \<or> c = 0x0C \<or> c = 0x20 \<or> c = 0xA0 \<or> c = 0x1680 \<or>
     (0x2000 \<le> c \<and> c \<le> 0x200A) \<or> c = 0x202F \<or> c = 0x205F \<or> c = 0x3000 \<or>
     c = 0xFEFF \<or>
     c = 0x0A \<or> c = 0x0D \<or> c = 0x2028 \<or> c = 0x2029"

definition trim :: "jstring \<Rightarrow> jstring" where
  "trim s = rev (dropWhile is_white_space (rev (dropWhile is_white_space s)))"

definition parseTeamIds :: "jstring \<Rightarrow> jstring list" where
  "parseTeamIds input = filter (\<lambda>part. part \<noteq> []) (map trim (split_separators input))"

text \<open>\<open>Array.prototype.join\<close> with a separator.\<close>

fun join :: "jstring \<Rightarrow> jstring list \<Rightarrow> jstring" where
  "join sep [] = []"
| "join sep [x] = x"
| "join sep (x # y # ys) = x @ sep @ join sep (y # ys)"

section \<open>The data of the page\<close>

record JobResult =
  teams :: "(jstring \<times> jstring) list"
  club_ids_csv :: jstring
  generated_csvs :: "jstring list"
  augmented_csvs :: "jstring list"
  workbook :: jstring
  selected_fields :: "jstring list"

text \<open>
  The events of the stream, tagged by \<open>type\<close>. The last argument of each constructor
  is the optional \<open>timestamp\<close>. The payload is cast from \<open>JSON.parse\<close> unchecked and
  the handler guards the status with \<^verbatim>\<open>??\<close>, so the status of a status event may
  be absent.
\<close>

datatype StreamEvent =
    StatusEvent "jstring option" "jstring option"
  | LogEvent jstring "jstring option"
  | ErrorEvent jstring "jstring option"
  | ResultEvent jstring JobResult "jstring option"

text \<open>
  An \<open>EventSource\<close> object: the job whose stream it reads, whether \<open>close()\<close> has been
  called on it (\<open>readyState = CLOSED\<close>), and the value of \<open>result\<close> that its
  \<open>onerror\<close> handler has captured. \<open>startStream\<close> is a \<open>useCallback\<close> closure over the
  \<open>result\<close> of the render that created it, and the handlers it installs keep that value.
\<close>

record EventSource =
  stream_job :: jstring
  onerror_result :: "JobResult option"
  closed :: bool

text \<open>
  A call of \<^verbatim>\<open>fetch(`${API_BASE}/api/run`, {method: "POST", ...})\<close>: the body, the
  \<open>result\<close> captured by the \<open>startStream\<close> that the pending \<open>onSubmit\<close> will call,
  and whether the promise has settled.
\<close>

record RunRequest =
  body_team_ids :: "jstring list"
  body_season_id :: "jstring option"
  body_fields :: "jstring list"
  startStream_result :: "JobResult option"
  settled :: bool

text \<open>
  The state of \<open>HomePage\<close>: its twelve hooks, the \<open>EventSource\<close> objects constructed so
  far (\<open>eventSourceRef\<close> holds an index into them), the create-job requests issued so far
  and what has been written with \<open>console.error\<close>.
\<close>

record page =
  teamInput :: jstring
  seasonId :: jstring
  fieldOptions :: "(jstring \<times> jstring) list"
  defaultFields :: "jstring list"
  selectedFields :: "jstring list"
  jobId :: "jstring option"
  jobStatus :: jstring
  logs :: "jstring list"
  error :: "jstring option"
  result :: "JobResult option"
  eventSourceRef :: "nat option"
  isSubmitting :: bool
  sources :: "EventSource list"
  requests :: "RunRequest list"
  console :: "jstring list"

definition initial :: page where
  "initial = \<lparr> teamInput = [], seasonId = [], fieldOptions = [], defaultFields = [],
     selectedFields = [], jobId = None, jobStatus = js ''Idle'', logs = [], error = None,
     result = None, eventSourceRef = None, isSubmitting = False, sources = [],
     requests = [], console = [] \<rparr>"

section \<open>The handlers\<close>

text \<open>\<open>source.close()\<close> on the \<open>i\<close>-th \<open>EventSource\<close>; closing twice is harmless.\<close>

definition close_source :: "nat \<Rightarrow> page \<Rightarrow> page" where
  "close_source i s =
     (if i < length (sources s)
      then s\<lparr>sources := (sources s)[i := (sources s ! i)\<lparr>closed := True\<rparr>]\<rparr>
      else s)"

text \<open>\<^verbatim>\<open>eventSourceRef.current?.close()\<close>\<close>

definition close_current :: "page \<Rightarrow> page" where
  "close_current s = (case eventSourceRef s of None \<Rightarrow> s | Some i \<Rightarrow> close_source i s)"

definition starting :: jstring where
  "starting = js ''Starting'' @ [0x2026]"

definition resetJobState :: "page \<Rightarrow> page" where
  "resetJobState s =
     (close_current s)\<lparr>eventSourceRef := None, jobId := None, jobStatus := starting,
        logs := [], result := None, error := None\<rparr>"

definition appendLog :: "jstring \<Rightarrow> page \<Rightarrow> page" where
  "appendLog line s = s\<lparr>logs := logs s @ [line]\<rparr>"

text \<open>
  \<open>handleStreamEvent\<close>. The time shown with a log line is
  \<open>new Date(event.timestamp).toLocaleTimeString()\<close> when the event has a non-empty
  timestamp and \<open>new Date().toLocaleTimeString()\<close> otherwise; both depend on the clock
  and the locale of the browser, so the formatting function and the formatted current
  time are parameters.
\<close>

definition log_line :: "(jstring \<Rightarrow> jstring) \<Rightarrow> jstring \<Rightarrow> jstring \<Rightarrow> jstring option \<Rightarrow> jstring" where
  "log_line toLocaleTimeString now message timestamp =
     (let shown = (case timestamp of
                     Some t \<Rightarrow> if t \<noteq> [] then toLocaleTimeString t else now
                   | None \<Rightarrow> now)
      in js ''['' @ shown @ js ''] '' @ message)"

fun handleStreamEvent :: "(jstring \<Rightarrow> jstring) \<Rightarrow> jstring \<Rightarrow> StreamEvent \<Rightarrow> page \<Rightarrow> page" where
  "handleStreamEvent fmt now (StatusEvent status ts) s =
     s\<lparr>jobStatus := (case status of Some st \<Rightarrow> st | None \<Rightarrow> js ''running'')\<rparr>"
| "handleStreamEvent fmt now (LogEvent message ts) s =
     appendLog (log_line fmt now message ts) s"
| "handleStreamEvent fmt now (ErrorEvent err ts) s =
     (close_current
        (s\<lparr>jobStatus := js ''failed'',
            error := Some (if err \<noteq> [] then err else js ''Workflow failed'')\<rparr>))
       \<lparr>eventSourceRef := None, isSubmitting := False\<rparr>"
| "handleStreamEvent fmt now (ResultEvent status data ts) s =
     (close_current (s\<lparr>jobStatus := js ''completed'', result := Some data\<rparr>))
       \<lparr>eventSourceRef := None, isSubmitting := False\<rparr>"

text \<open>
  \<open>startStream\<close>: closes the \<open>EventSource\<close> of the ref, constructs a new one and stores
  it in the ref. \<open>captured\<close> is the \<open>result\<close> this \<open>startStream\<close> closure was created with.
\<close>

definition startStream :: "JobResult option \<Rightarrow> jstring \<Rightarrow> page \<Rightarrow> page" where
  "startStream captured ident s =
     (let s1 = close_current s
      in s1\<lparr>sources := sources s1 @
                 [\<lparr>stream_job = ident, onerror_result = captured, closed = False\<rparr>],
             eventSourceRef := Some (length (sources s1))\<rparr>)"

text \<open>
  \<open>evt.data\<close> of a message, as the handler tells the cases apart: the empty string
  (falsy), a text that \<open>JSON.parse\<close> rejects with a \<open>SyntaxError\<close>, or a text that it
  parses to an event.
\<close>

datatype payload = Empty | NotJson | Json StreamEvent

datatype exn = SyntaxError | URIError

fun JSON_parse :: "payload \<Rightarrow> exn + StreamEvent" where
  "JSON_parse (Json ev) = Inr ev"
| "JSON_parse NotJson = Inl SyntaxError"
| "JSON_parse Empty = Inl SyntaxError"

definition console_error :: "jstring \<Rightarrow> page \<Rightarrow> page" where
  "console_error line s = s\<lparr>console := console s @ [line]\<rparr>"

text \<open>\<open>source.onmessage\<close>: the \<open>catch\<close> is the \<open>Inl\<close> branch.\<close>

definition onmessage :: "(jstring \<Rightarrow> jstring) \<Rightarrow> jstring \<Rightarrow> payload \<Rightarrow> page \<Rightarrow> page" where
  "onmessage fmt now data s =
     (if data = Empty then s
      else case JSON_parse data of
             Inr ev \<Rightarrow> handleStreamEvent fmt now ev s
           | Inl err \<Rightarrow> console_error (js ''Failed to parse stream payload'') s)"

text \<open>\<open>source.onerror\<close> of the \<open>i\<close>-th \<open>EventSource\<close>.\<close>

definition connection_lost :: jstring where
  "connection_lost = js ''Connection to workflow stream lost.''"

definition onerror :: "nat \<Rightarrow> page \<Rightarrow> page" where
  "onerror i s =
     (let s1 = (close_source i s)\<lparr>eventSourceRef := None, isSubmitting := False\<rparr>
      in if onerror_result (sources s ! i) = None
         then s1\<lparr>error := Some connection_lost\<rparr>
         else s1)"

text \<open>
  \<open>onSubmit\<close> up to its \<open>await fetch(...)\<close>. The closure reads \<open>teamInput\<close>, \<open>seasonId\<close>,
  \<open>selectedFields\<close> and (through \<open>startStream\<close>) \<open>result\<close> of the render in which the
  form was submitted, that is, of the state before \<open>resetJobState\<close>.
\<close>

definition onSubmit :: "page \<Rightarrow> page" where
  "onSubmit s =
     (let clubIds = parseTeamIds (teamInput s)
      in if clubIds = [] then s\<lparr>error := Some (js ''Provide at least one club ID.'')\<rparr>
         else
           let s1 = (resetJobState s)\<lparr>isSubmitting := True\<rparr>
           in s1\<lparr>requests := requests s1 @
                  [\<lparr>body_team_ids = clubIds,
                    body_season_id = (if trim (seasonId s) \<noteq> [] then Some (trim (seasonId s)) else None),
                    body_fields = selectedFields s,
                    startStream_result = result s,
                    settled = False\<rparr>]\<rparr>)"

text \<open>
  How the request ends: \<open>fetch\<close> rejects (with an \<open>Error\<close> and its message, or with
  something else); the response is not \<open>ok\<close> (with the \<open>detail\<close> of its body, absent when
  the body is not JSON or has none); the response is \<open>ok\<close> but \<open>response.json()\<close> rejects
  with an \<open>Error\<close>; or the response carries a job id.
\<close>

datatype run_response =
    Rejected "jstring option"
  | NotOk "jstring option"
  | OkNotJson jstring
  | OkJob jstring

text \<open>
  The \<open>catch\<close> of \<open>onSubmit\<close>; \<open>err\<close> is the message of the value thrown when that is
  an \<open>Error\<close>, and absent otherwise.
\<close>

definition submit_failed :: "jstring option \<Rightarrow> page \<Rightarrow> page" where
  "submit_failed err s =
     (console_error (case err of Some m \<Rightarrow> m | None \<Rightarrow> []) s)
       \<lparr>error := Some (case err of Some m \<Rightarrow> m | None \<Rightarrow> js ''Unable to start workflow''),
        jobStatus := js ''failed'', isSubmitting := False\<rparr>"

text \<open>\<open>onSubmit\<close> after the \<open>await\<close>, for the request \<open>k\<close>; a promise settles once.\<close>

definition onSubmit_resume :: "nat \<Rightarrow> run_response \<Rightarrow> page \<Rightarrow> page" where
  "onSubmit_resume k response s =
     (if k < length (requests s) \<and> \<not> settled (requests s ! k) then
        let captured = startStream_result (requests s ! k);
            s1 = s\<lparr>requests := (requests s)[k := (requests s ! k)\<lparr>settled := True\<rparr>]\<rparr>
        in case response of
             OkJob ident \<Rightarrow>
               startStream captured ident (s1\<lparr>jobId := Some ident, jobStatus := js ''running''\<rparr>)
           | NotOk detail \<Rightarrow>
               submit_failed
                 (Some (case detail of Some d \<Rightarrow> if d \<noteq> [] then d else js ''Workflow failed''
                        | None \<Rightarrow> js ''Workflow failed'')) s1
           | OkNotJson message \<Rightarrow> submit_failed (Some message) s1
           | Rejected err \<Rightarrow> submit_failed err s1
      else s)"

text \<open>The effect \<open>fetchFields\<close>, when its request ends, and the cleanup of the effect.\<close>

datatype fields_response =
    FieldsOk "(jstring \<times> jstring) list option" "jstring list option"
  | FieldsFailed jstring

fun fetchFields :: "fields_response \<Rightarrow> page \<Rightarrow> page" where
  "fetchFields (FieldsOk options defaults) s =
     (let ds = (case defaults of Some d \<Rightarrow> d | None \<Rightarrow> [])
      in s\<lparr>fieldOptions := (case options of Some fs \<Rightarrow> fs | None \<Rightarrow> []),
           defaultFields := ds, selectedFields := ds\<rparr>)"
| "fetchFields (FieldsFailed message) s =
     (console_error message s)
       \<lparr>error := Some (js ''Unable to load workbook fields. Refresh and try again.'')\<rparr>"

definition unmount :: "page \<Rightarrow> page" where
  "unmount s = close_current s"

text \<open>The selection of columns.\<close>

definition toggleField :: "jstring \<Rightarrow> page \<Rightarrow> page" where
  "toggleField fieldId s =
     s\<lparr>selectedFields :=
         (if fieldId \<in> set (selectedFields s)
          then filter (\<lambda>i. i \<noteq> fieldId) (selectedFields s)
          else selectedFields s @ [fieldId])\<rparr>"

definition selectAll :: "page \<Rightarrow> page" where
  "selectAll s = s\<lparr>selectedFields := map fst (fieldOptions s)\<rparr>"

definition selectDefault :: "page \<Rightarrow> page" where
  "selectDefault s = s\<lparr>selectedFields := defaultFields s\<rparr>"

definition clearFields :: "page \<Rightarrow> page" where
  "clearFields s = s\<lparr>selectedFields := []\<rparr>"

section \<open>The page as a transition system\<close>

text \<open>
  What can happen to the page: the user edits the form or submits it, a request ends, the
  stream of the \<open>i\<close>-th \<open>EventSource\<close> delivers a message (with the formatted time of its
  receipt) or fails, the component is unmounted. The browser dispatches the message and
  error events of an \<open>EventSource\<close> only while it has not been closed, and a promise
  settles once; elsewhere the input runs its handler.
\<close>

datatype input =
    TypeTeamInput jstring
  | TypeSeasonId jstring
  | ToggleField jstring
  | SelectAll
  | SelectDefault
  | ClearFields
  | FieldsResponse fields_response
  | Submit
  | RunResponse nat run_response
  | Message nat payload jstring
  | TransportError nat
  | Unmount

fun step :: "(jstring \<Rightarrow> jstring) \<Rightarrow> page \<Rightarrow> input \<Rightarrow> page" where
  "step fmt s (TypeTeamInput v) = s\<lparr>teamInput := v\<rparr>"
| "step fmt s (TypeSeasonId v) = s\<lparr>seasonId := v\<rparr>"
| "step fmt s (ToggleField f) = toggleField f s"
| "step fmt s SelectAll = selectAll s"
| "step fmt s SelectDefault = selectDefault s"
| "step fmt s ClearFields = clearFields s"
| "step fmt s (FieldsResponse r) = fetchFields r s"
| "step fmt s Submit = onSubmit s"
| "step fmt s (RunResponse k r) = onSubmit_resume k r s"
| "step fmt s (Message i data now) =
     (if i < length (sources s) \<and> \<not> closed (sources s ! i) then onmessage fmt now data s else s)"
| "step fmt s (TransportError i) =
     (if i < length (sources s) \<and> \<not> closed (sources s ! i) then onerror i s else s)"
| "step fmt s Unmount = unmount s"

definition run :: "(jstring \<Rightarrow> jstring) \<Rightarrow> page \<Rightarrow> input list \<Rightarrow> page" where
  "run fmt s ins = foldl (step fmt) s ins"

text \<open>The \<open>EventSource\<close> objects that are open.\<close>

definition open_sources :: "page \<Rightarrow> nat list" where
  "open_sources s = filter (\<lambda>i. \<not> closed (sources s ! i)) [0 ..< length (sources s)]"

section \<open>Download links\<close>

text \<open>
  \<^verbatim>\<open>`${API_BASE}/download?path=${encodeURIComponent(path)}`\<close>, where \<open>API_BASE\<close> is
  \<^verbatim>\<open>process.env.NEXT_PUBLIC_API_BASE_URL ?? "http://localhost:8080"\<close>; the value of the
  environment variable is a parameter.

  \<open>encodeURIComponent\<close> is the operation \<open>Encode\<close> of ECMAScript with the unreserved set
  of letters, digits and \<^verbatim>\<open>- _ . ! ~ * ' ( )\<close>. It copies the code units of that set;
  elsewhere it reads a code point (one code unit, or a leading and a trailing surrogate),
  throws a \<open>URIError\<close> when a surrogate is unpaired, and writes each octet of the UTF-8
  encoding of the code point as \<^verbatim>\<open>%\<close> and two upper-case hexadecimal digits.
\<close>

definition API_BASE :: "jstring option \<Rightarrow> jstring" where
  "API_BASE env = (case env of Some base \<Rightarrow> base | None \<Rightarrow> js ''http://localhost:8080'')"

text \<open>
  The other two addresses the page builds from \<open>API_BASE\<close>: the stream of an
  \<open>EventSource\<close>, \<^verbatim>\<open>`${API_BASE}/api/jobs/${id}/stream`\<close>, and the create-job request.
\<close>

definition stream_url :: "jstring option \<Rightarrow> EventSource \<Rightarrow> jstring" where
  "stream_url env source = API_BASE env @ js ''/api/jobs/'' @ stream_job source @ js ''/stream''"

definition run_url :: "jstring option \<Rightarrow> jstring" where
  "run_url env = API_BASE env @ js ''/api/run''"

definition unescaped :: "code_unit \<Rightarrow> bool" where
  "unescaped c \<longleftrightarrow>
     (0x41 \<le> c \<and> c \<le> 0x5A) \<or> (0x61 \<le> c \<and> c \<le> 0x7A) \<or> (0x30 \<le> c \<and> c \<le> 0x39) \<or>
     c = 0x2D \<or> c = 0x5F \<or> c = 0x2E \<or> c = 0x21 \<or> c = 0x7E \<or> c = 0x2A \<or>
     c = 0x27 \<or> c = 0x28 \<or> c = 0x29"

definition is_lead :: "code_unit \<Rightarrow> bool" where
  "is_lead c \<longleftrightarrow> 0xD800 \<le> c \<and> c \<le> 0xDBFF"

definition is_trail :: "code_unit \<Rightarrow> bool" where
  "is_trail c \<longleftrightarrow> 0xDC00 \<le> c \<and> c \<le> 0xDFFF"

definition UTF16SurrogatePairToCodePoint :: "code_unit \<Rightarrow> code_unit \<Rightarrow> nat" where
  "UTF16SurrogatePairToCodePoint lead trail =
     (unat lead - 0xD800) * 0x400 + (unat trail - 0xDC00) + 0x10000"

definition utf8_octets :: "nat \<Rightarrow> nat list" where
  "utf8_octets cp =
     (if cp < 0x80 then [cp]
      else if cp < 0x800 then [0xC0 + cp div 0x40, 0x80 + cp mod 0x40]
      else if cp < 0x10000 then
        [0xE0 + cp div 0x1000, 0x80 + cp div 0x40 mod 0x40, 0x80 + cp mod 0x40]
      else
        [0xF0 + cp div 0x40000, 0x80 + cp div 0x1000 mod 0x40, 0x80 + cp div 0x40 mod 0x40,
         0x80 + cp mod 0x40])"

definition hex_digit :: "nat \<Rightarrow> code_unit" where
  "hex_digit n = (if n < 10 then 0x30 + of_nat n else 0x41 + of_nat (n - 10))"

definition percent :: "nat \<Rightarrow> jstring" where
  "percent octet = [0x25, hex_digit (octet div 16), hex_digit (octet mod 16)]"

definition escape :: "nat \<Rightarrow> jstring" where
  "escape cp = concat (map percent (utf8_octets cp))"

text \<open>The result so far is lost when the rest throws.\<close>

definition prepend :: "jstring \<Rightarrow> exn + jstring \<Rightarrow> exn + jstring" where
  "prepend xs r = (case r of Inl e \<Rightarrow> Inl e | Inr ys \<Rightarrow> Inr (xs @ ys))"

fun Encode :: "jstring \<Rightarrow> exn + jstring" where
  "Encode [] = Inr []"
| "Encode (c # cs) =
     (if unescaped c then prepend [c] (Encode cs)
      else if \<not> is_lead c \<and> \<not> is_trail c then prepend (escape (unat c)) (Encode cs)
      else if is_trail c then Inl URIError
      else case cs of
             [] \<Rightarrow> Inl URIError
           | d # ds \<Rightarrow>
               if \<not> is_trail d then Inl URIError
               else prepend (escape (UTF16SurrogatePairToCodePoint c d)) (Encode ds))"

definition encodeURIComponent :: "jstring \<Rightarrow> exn + jstring" where
  "encodeURIComponent uriComponent = Encode uriComponent"

definition downloadUrl :: "jstring option \<Rightarrow> jstring \<Rightarrow> exn + jstring" where
  "downloadUrl env path =
     (case encodeURIComponent path of
        Inl e \<Rightarrow> Inl e
      | Inr encoded \<Rightarrow> Inr (API_BASE env @ js ''/download?path='' @ encoded))"

text \<open>
  Decoding the query value: \<open>decodeURIComponent\<close>, the operation \<open>Decode\<close> of ECMAScript
  with nothing preserved. A code unit other than \<^verbatim>\<open>%\<close> is copied. At a \<^verbatim>\<open>%\<close> two
  hexadecimal digits give an octet; its leading one bits tell how many octets the code
  point takes, the further ones are read from as many escapes, and the octets must be
  the UTF-8 encoding of a code point, which is written in UTF-16. Every failure throws a
  \<open>URIError\<close>.
\<close>

definition hex_value :: "code_unit \<Rightarrow> nat option" where
  "hex_value c =
     (if 0x30 \<le> c \<and> c \<le> 0x39 then Some (unat c - 0x30)
      else if 0x41 \<le> c \<and> c \<le> 0x46 then Some (unat c - 0x41 + 10)
      else if 0x61 \<le> c \<and> c \<le> 0x66 then Some (unat c - 0x61 + 10)
      else None)"

fun ParseHexOctet :: "jstring \<Rightarrow> (nat \<times> jstring) option" where
  "ParseHexOctet (h # l # rest) =
     (case hex_value h of
        None \<Rightarrow> None
      | Some a \<Rightarrow> (case hex_value l of None \<Rightarrow> None | Some b \<Rightarrow> Some (16 * a + b, rest)))"
| "ParseHexOctet _ = None"

text \<open>The number of leading one bits of an octet; 5 stands for five or more.\<close>

definition leading_ones :: "nat \<Rightarrow> nat" where
  "leading_ones b =
     (if b < 0x80 then 0 else if b < 0xC0 then 1 else if b < 0xE0 then 2
      else if b < 0xF0 then 3 else if b < 0xF8 then 4 else 5)"

fun continuation :: "nat \<Rightarrow> jstring \<Rightarrow> (nat list \<times> jstring) option" where
  "continuation 0 s = Some ([], s)"
| "continuation (Suc n) [] = None"
| "continuation (Suc n) (c # cs) =
     (if c \<noteq> 0x25 then None
      else case ParseHexOctet cs of
             None \<Rightarrow> None
           | Some (b, rest) \<Rightarrow>
               (case continuation n rest of
                  None \<Rightarrow> None
                | Some (bs, rest') \<Rightarrow> Some (b # bs, rest')))"

definition is_continuation :: "nat \<Rightarrow> bool" where
  "is_continuation b \<longleftrightarrow> 0x80 \<le> b \<and> b < 0xC0"

text \<open>
  The code point of a well-formed UTF-8 sequence of two to four octets: continuation
  octets in \<open>80..BF\<close>, no encoding longer than needed, no surrogate, nothing above
  \<open>10FFFF\<close>.
\<close>

fun utf8_code_point :: "nat list \<Rightarrow> nat option" where
  "utf8_code_point [b0, b1] =
     (let v = (b0 - 0xC0) * 0x40 + (b1 - 0x80)
      in if is_continuation b1 \<and> 0x80 \<le> v then Some v else None)"
| "utf8_code_point [b0, b1, b2] =
     (let v = (b0 - 0xE0) * 0x1000 + (b1 - 0x80) * 0x40 + (b2 - 0x80)
      in if is_continuation b1 \<and> is_continuation b2 \<and> 0x800 \<le> v \<and>
            \<not> (0xD800 \<le> v \<and> v \<le> 0xDFFF)
         then Some v else None)"
| "utf8_code_point [b0, b1, b2, b3] =
     (let v = (b0 - 0xF0) * 0x40000 + (b1 - 0x80) * 0x1000 + (b2 - 0x80) * 0x40 + (b3 - 0x80)
      in if is_continuation b1 \<and> is_continuation b2 \<and> is_continuation b3 \<and>
            0x10000 \<le> v \<and> v \<le> 0x10FFFF
         then Some v else None)"
| "utf8_code_point _ = None"

definition UTF16EncodeCodePoint :: "nat \<Rightarrow> jstring" where
  "UTF16EncodeCodePoint cp =
     (if cp \<le> 0xFFFF then [of_nat cp]
      else [of_nat ((cp - 0x10000) div 0x400 + 0xD800),
            of_nat ((cp - 0x10000) mod 0x400 + 0xDC00)])"

text \<open>Each escape that is read shortens the input, so \<open>Decode\<close> terminates.\<close>

lemma ParseHexOctet_length:
  "ParseHexOctet s = Some (b, rest) \<Longrightarrow> length rest < length s"
  by (induction s rule: ParseHexOctet.induct) (auto split: option.splits)

lemma continuation_length:
  "continuation n s = Some (bs, rest) \<Longrightarrow> length rest \<le> length s"
proof (induction n s arbitrary: bs rest rule: continuation.induct)
  case (3 n c cs)
  then show ?case
    by (auto split: if_splits option.splits prod.splits dest!: ParseHexOctet_length) fastforce
qed simp_all

function Decode :: "jstring \<Rightarrow> exn + jstring" where
  "Decode [] = Inr []"
| "Decode (c # cs) =
     (if c \<noteq> 0x25 then prepend [c] (Decode cs)
      else case ParseHexOctet cs of
             None \<Rightarrow> Inl URIError
           | Some (b, rest) \<Rightarrow>
               if leading_ones b = 0 then prepend [of_nat b] (Decode rest)
               else if leading_ones b = 1 \<or> 4 < leading_ones b then Inl URIError
               else case continuation (leading_ones b - 1) rest of
                      None \<Rightarrow> Inl URIError
                    | Some (octets, rest') \<Rightarrow>
                        (case utf8_code_point (b # octets) of
                           None \<Rightarrow> Inl URIError
                         | Some v \<Rightarrow> prepend (UTF16EncodeCodePoint v) (Decode rest')))"
  by pat_completeness auto
termination
proof (relation "measure length", goal_cases)
  case 1
  show ?case by simp
next
  case (2 c cs)
  show ?case by simp
next
  case (3 c cs x2 b rest)
  then show ?case by (auto dest: ParseHexOctet_length)
next
  case (4 c cs x2 b rest x2a octets rest' v)
  then have "length rest < length cs" "length rest' \<le> length rest"
    by (auto dest: ParseHexOctet_length continuation_length)
  then show ?case by simp
qed

definition decodeURIComponent :: "jstring \<Rightarrow> exn + jstring" where
  "decodeURIComponent encoded = Decode encoded"

text \<open>
  The Unicode scalar values (code points that are not surrogates), and the strings in
  which every surrogate is paired.
\<close>

definition scalar :: "nat \<Rightarrow> bool" where
  "scalar cp \<longleftrightarrow> cp < 0x110000 \<and> \<not> (0xD800 \<le> cp \<and> cp \<le> 0xDFFF)"

fun well_formed :: "jstring \<Rightarrow> bool" where
  "well_formed [] = True"
| "well_formed (c # cs) =
     (if is_lead c then (case cs of [] \<Rightarrow> False | d # ds \<Rightarrow> is_trail d \<and> well_formed ds)
      else \<not> is_trail c \<and> well_formed cs)"

section \<open>Notions used in the properties\<close>

text \<open>
  At most one \<open>EventSource\<close> is open, and it is the one in \<open>eventSourceRef\<close>.
\<close>

definition one_live :: "page \<Rightarrow> bool" where
  "one_live s \<longleftrightarrow> set (open_sources s) \<subseteq> set_option (eventSourceRef s)"

text \<open>The inputs that come from a stream, and the events that end a job.\<close>

fun stream_input :: "input \<Rightarrow> bool" where
  "stream_input (Message i d now) = True"
| "stream_input (TransportError i) = True"
| "stream_input _ = False"

fun terminal :: "StreamEvent \<Rightarrow> bool" where
  "terminal (ErrorEvent err ts) = True"
| "terminal (ResultEvent status data ts) = True"
| "terminal _ = False"

text \<open>
  The events that neither end a job nor move its status away from \<open>running\<close>, and
  the state of a job whose stream \<open>i\<close> is open, was started with no result on display
  and has seen only such events.
\<close>

fun progress :: "StreamEvent \<Rightarrow> bool" where
  "progress (StatusEvent status ts) = (status = Some (js ''running''))"
| "progress (LogEvent message ts) = True"
| "progress _ = False"

definition streaming :: "nat \<Rightarrow> page \<Rightarrow> bool" where
  "streaming i s \<longleftrightarrow> i < length (sources s) \<and> \<not> closed (sources s ! i) \<and>
     onerror_result (sources s ! i) = None \<and> jobStatus s = js ''running'' \<and> result s = None"

text \<open>A result payload, for the concrete runs below.\<close>

definition club_a :: JobResult where
  "club_a = \<lparr>teams = [(js ''6251'', js ''Club A'')], club_ids_csv = js ''out/club_ids.csv'',
     generated_csvs = [js ''out/6251.csv''], augmented_csvs = [js ''out/6251_augmented.csv''],
     workbook = js ''out/workbook.xlsx'', selected_fields = [js ''id'', js ''name'']\<rparr>"

text \<open>
  The submit button is rendered with \<open>disabled={isSubmitting}\<close>: through the form, a
  submission is possible only while \<open>isSubmitting\<close> is false. \<open>ui_trace\<close> holds of the
  input sequences that respect this.
\<close>

fun ui_allows :: "page \<Rightarrow> input \<Rightarrow> bool" where
  "ui_allows s Submit = (\<not> isSubmitting s)"
| "ui_allows s _ = True"

fun ui_trace :: "(jstring \<Rightarrow> jstring) \<Rightarrow> page \<Rightarrow> input list \<Rightarrow> bool" where
  "ui_trace fmt s [] = True"
| "ui_trace fmt s (x # xs) = (ui_allows s x \<and> ui_trace fmt (step fmt s x) xs)"

text \<open>
  The invariant of the page under \<open>ui_trace\<close>: while a stream is open or a request is
  pending the button is disabled and no result is recorded, there is at most one pending
  request and none while a stream is open, and a recorded result comes with the status
  \<open>completed\<close>.
\<close>

definition gated :: "page \<Rightarrow> bool" where
  "gated s \<longleftrightarrow> one_live s \<and>
     (open_sources s \<noteq> [] \<longrightarrow> isSubmitting s) \<and>
     (open_sources s \<noteq> [] \<longrightarrow> list_all settled (requests s)) \<and>
     (\<not> list_all settled (requests s) \<longrightarrow> isSubmitting s) \<and>
     (open_sources s \<noteq> [] \<or> \<not> list_all settled (requests s) \<longrightarrow> result s = None) \<and>
     (result s \<noteq> None \<longrightarrow> jobStatus s = js ''completed'') \<and>
     (\<forall>j<length (requests s). \<forall>k<length (requests s).
        \<not> settled (requests s ! j) \<and> \<not> settled (requests s ! k) \<longrightarrow> j = k)"

text \<open>
  The inputs that belong to the job attempt of request \<open>k\<close>: its own response, whatever
  the streams deliver, edits of the form and unmounting; not another submission, the
  response of another request, or the response of the field catalog.
\<close>

fun job_input :: "nat \<Rightarrow> input \<Rightarrow> bool" where
  "job_input k Submit = False"
| "job_input k (FieldsResponse r) = False"
| "job_input k (RunResponse j r) = (j = k)"
| "job_input k _ = True"

text \<open>The invariant of one job attempt.\<close>

definition attempt :: "nat \<Rightarrow> page \<Rightarrow> bool" where
  "attempt k s \<longleftrightarrow> one_live s \<and> k < length (requests s) \<and>
     (\<not> settled (requests s ! k) \<longrightarrow> open_sources s = []) \<and>
     (open_sources s \<noteq> [] \<or> \<not> settled (requests s ! k) \<longrightarrow> result s = None \<and> error s = None) \<and>
     \<not> (result s \<noteq> None \<and> error s \<noteq> None)"

section \<open>Properties of the parser\<close>

lemma split_separators_last:
  "dropWhile (\<lambda>c. \<not> is_separator c) input = [] \<Longrightarrow>
   split_separators input = [takeWhile (\<lambda>c. \<not> is_separator c) input]"
  by (subst split_separators.simps) (simp add: Let_def)

lemma split_separators_next:
  "dropWhile (\<lambda>c. \<not> is_separator c) input \<noteq> [] \<Longrightarrow>
   split_separators input =
     takeWhile (\<lambda>c. \<not> is_separator c) input #
     split_separators (dropWhile is_separator (dropWhile (\<lambda>c. \<not> is_separator c) input))"
  by (subst split_separators.simps) (simp only: Let_def if_False)

lemma split_separators_pieces:
  "piece \<in> set (split_separators input) \<Longrightarrow> set piece \<subseteq> {c \<in> set input. \<not> is_separator c}"
proof (induction input rule: split_separators.induct)
  case (1 input)
  let ?rest = "dropWhile (\<lambda>c. \<not> is_separator c) input"
  have tw: "set (takeWhile (\<lambda>c. \<not> is_separator c) input) \<subseteq> {c \<in> set input. \<not> is_separator c}"
    by (auto dest: set_takeWhileD)
  show ?case
  proof (cases "?rest = []")
    case True
    from 1(2) have "piece = takeWhile (\<lambda>c. \<not> is_separator c) input"
      by (simp only: split_separators_last [OF True]) simp
    with tw show ?thesis by simp
  next
    case False
    from 1(2)
    consider "piece = takeWhile (\<lambda>c. \<not> is_separator c) input"
      | "piece \<in> set (split_separators (dropWhile is_separator ?rest))"
      by (simp only: split_separators_next [OF False]) auto
    then show ?thesis
    proof cases
      case 1
      with tw show ?thesis by simp
    next
      case 2
      with "1.IH" [OF refl refl False] 
      have "set piece \<subseteq> {c \<in> set (dropWhile is_separator ?rest). \<not> is_separator c}" by simp
      moreover have "set (dropWhile is_separator ?rest) \<subseteq> set input"
        by (meson set_dropWhileD subsetI)
      ultimately show ?thesis by auto
    qed
  qed
qed

lemma trim_all_white: "\<forall>c\<in>set s. is_white_space c \<Longrightarrow> trim s = []"
  by (auto simp: trim_def dest: set_dropWhileD)

lemma trim_subset: "set (trim s) \<subseteq> set s"
  unfolding trim_def by (auto dest!: set_dropWhileD)

lemma parseTeamIds_blank:
  assumes "\<forall>c\<in>set input. is_white_space c \<or> is_separator c"
  shows "parseTeamIds input = []"
proof -
  have "trim piece = []" if "piece \<in> set (split_separators input)" for piece
  proof (rule trim_all_white)
    from split_separators_pieces [OF that] assms
    show "\<forall>c\<in>set piece. is_white_space c" by auto
  qed
  then show ?thesis
    by (simp add: parseTeamIds_def filter_empty_conv)
qed

lemma dropWhile_hd_id: "xs \<noteq> [] \<Longrightarrow> \<not> P (hd xs) \<Longrightarrow> dropWhile P xs = xs"
  by (cases xs) simp_all

lemma trim_trim: "trim (trim s) = trim s"
proof -
  define u where "u = dropWhile is_white_space s"
  define v where "v = dropWhile is_white_space (rev u)"
  have t: "trim s = rev v" by (simp add: trim_def u_def v_def)
  have a: "dropWhile is_white_space (rev v) = rev v"
  proof (cases "v = []")
    case True then show ?thesis by simp
  next
    case False
    then have "rev u \<noteq> []" by (auto simp: v_def)
    then have "u \<noteq> []" by simp
    then have h: "\<not> is_white_space (hd u)" unfolding u_def by (rule hd_dropWhile)
    obtain ws where "rev u = ws @ v" 
      unfolding v_def by (metis takeWhile_dropWhile_id)
    with False have "last v = last (rev u)" by simp
    also have "\<dots> = hd u" using \<open>u \<noteq> []\<close> by (simp add: last_rev)
    finally have "hd (rev v) = hd u" using False by (simp add: hd_rev)
    then have "\<not> is_white_space (hd (rev v))" using h by simp
    moreover have "rev v \<noteq> []" using False by simp
    ultimately show ?thesis by (rule dropWhile_hd_id [rotated])
  qed
  have b: "dropWhile is_white_space v = v" by (simp add: v_def)
  have "trim (rev v) = rev (dropWhile is_white_space (rev (dropWhile is_white_space (rev v))))"
    by (simp only: trim_def)
  also have "\<dots> = rev (dropWhile is_white_space (rev (rev v)))" by (simp only: a)
  also have "\<dots> = rev v" by (simp only: rev_rev_ident b)
  finally show ?thesis by (simp only: t)
qed

lemma split_separators_join:
  assumes "ts \<noteq> []" "\<forall>t\<in>set ts. t \<noteq> [] \<and> (\<forall>c\<in>set t. \<not> is_separator c)"
  shows "split_separators (join [0x2C] ts) = ts"
  using assms
proof (induction "[0x2C] :: jstring" ts rule: join.induct)
  case 1
  then show ?case by simp
next
  case (2 x)
  then have "dropWhile (\<lambda>c. \<not> is_separator c) x = []" "takeWhile (\<lambda>c. \<not> is_separator c) x = x"
    by (simp_all add: dropWhile_eq_Nil_conv)
  then show ?case using split_separators_last [of x] by simp
next
  case (3 x y ys)
  let ?in = "join [0x2C] (x # y # ys)"
  have x: "\<forall>c\<in>set x. \<not> is_separator c" and y: "y \<noteq> []" "\<not> is_separator (hd y)"
    using 3(3) by auto
  have sep: "is_separator 0x2C" by (simp add: is_separator_def)
  have tw: "takeWhile (\<lambda>c. \<not> is_separator c) ?in = x"
    using x sep by (simp add: takeWhile_append2)
  have dw: "dropWhile (\<lambda>c. \<not> is_separator c) ?in = 0x2C # join [0x2C] (y # ys)"
    using x sep by (simp add: dropWhile_append2)
  have hdj: "hd (join [0x2C] (y # ys)) = hd y" "join [0x2C] (y # ys) \<noteq> []"
    using y by (cases ys; simp)+
  then have dw2: "dropWhile is_separator (0x2C # join [0x2C] (y # ys)) = join [0x2C] (y # ys)"
    using sep y by (cases "join [0x2C] (y # ys)") auto
  have "split_separators ?in = x # split_separators (join [0x2C] (y # ys))"
    using split_separators_next [of ?in] by (simp only: tw dw dw2) simp
  moreover have "split_separators (join [0x2C] (y # ys)) = y # ys"
    using 3 by simp
  ultimately show ?case by simp
qed

lemma parseTeamIds_tokens:
  assumes "t \<in> set (parseTeamIds input)"
  shows "t \<noteq> []" "\<forall>c\<in>set t. \<not> is_separator c" "trim t = t"
proof -
  from assms obtain piece where p: "piece \<in> set (split_separators input)" and t: "t = trim piece" and ne: "t \<noteq> []"
    by (auto simp: parseTeamIds_def)
  show "t \<noteq> []" by fact
  show "\<forall>c\<in>set t. \<not> is_separator c"
    using split_separators_pieces [OF p] trim_subset [of piece] t by auto
  show "trim t = t" by (simp add: t trim_trim)
qed

lemma js_comma: "js '','' = [0x2C]"
  by (simp add: js_def)

text \<open>
  C8 (parsing idempotence): for every input \<open>x\<close>, parsing the tokens of \<open>x\<close> joined
  with commas gives the tokens of \<open>x\<close> again, in the same order:
  \<open>parseTeamIds(parseTeamIds(x).join(","))\<close> is \<open>parseTeamIds(x)\<close>.
\<close>

theorem C8_parsing_idempotence:
  "parseTeamIds (join (js '','') (parseTeamIds x)) = parseTeamIds x"
proof (cases "parseTeamIds x = []")
  case True
  have "split_separators [] = [[]]"
    using split_separators_last [of "[]"] by simp
  then have "parseTeamIds [] = []"
    by (simp add: parseTeamIds_def trim_def)
  with True show ?thesis by simp
next
  case False
  let ?ts = "parseTeamIds x"
  have "split_separators (join [0x2C] ?ts) = ?ts"
    using False parseTeamIds_tokens(1,2) by (intro split_separators_join) auto
  moreover have "map trim ?ts = ?ts"
    using parseTeamIds_tokens(3) by (simp add: map_idI)
  moreover have "filter (\<lambda>part. part \<noteq> []) ?ts = ?ts"
    using parseTeamIds_tokens(1) by (simp add: filter_id_conv)
  ultimately show ?thesis
    by (simp add: js_comma parseTeamIds_def [of "join [0x2C] ?ts"])
qed

section \<open>Submitting the form\<close>

text \<open>
  C7 (empty-input rejection): when the text of the form consists only of white space (the
  code units that \<open>trim\<close> removes), commas and line feeds, the parsed sequence of club ids
  is empty and submitting does nothing but set the validation error: no create-job request
  is issued and no stream is opened.
\<close>

theorem C7_empty_input_rejection:
  assumes "\<forall>c\<in>set (teamInput s). is_white_space c \<or> c = 0x2C \<or> c = 0x0A"
  shows "parseTeamIds (teamInput s) = [] \<and>
         step fmt s Submit = s\<lparr>error := Some (js ''Provide at least one club ID.'')\<rparr> \<and>
         requests (step fmt s Submit) = requests s \<and>
         sources (step fmt s Submit) = sources s"
proof -
  have "parseTeamIds (teamInput s) = []"
    using assms by (intro parseTeamIds_blank) (auto simp: is_separator_def)
  then show ?thesis
    by (simp add: onSubmit_def)
qed

theorem C7_empty_input_rejection_witness:
  "parseTeamIds (js '' , '') = [] \<and>
   step id (initial\<lparr>teamInput := js '' , ''\<rparr>) Submit =
     initial\<lparr>teamInput := js '' , '', error := Some (js ''Provide at least one club ID.'')\<rparr> \<and>
   requests (step id (initial\<lparr>teamInput := js '' , ''\<rparr>) Submit) = [] \<and>
   sources (step id (initial\<lparr>teamInput := js '' , ''\<rparr>) Submit) = []"
proof -
  have "\<forall>c\<in>set (teamInput (initial\<lparr>teamInput := js '' , ''\<rparr>)).
          is_white_space c \<or> c = 0x2C \<or> c = 0x0A"
    by (simp add: js_def is_white_space_def)
  from C7_empty_input_rejection [OF this, of id] show ?thesis
    by (simp add: initial_def)
qed

section \<open>The live stream\<close>

lemma close_source_eq:
  "close_source i s = s\<lparr>sources := (sources s)[i := (sources s ! i)\<lparr>closed := True\<rparr>]\<rparr>"
  by (simp add: close_source_def list_update_beyond)

lemma one_live_iff:
  "one_live s \<longleftrightarrow> (\<forall>i<length (sources s). \<not> closed (sources s ! i) \<longrightarrow> eventSourceRef s = Some i)"
  by (auto simp: one_live_def open_sources_def)

lemma open_sources_Nil_iff:
  "open_sources s = [] \<longleftrightarrow> (\<forall>i<length (sources s). closed (sources s ! i))"
  by (auto simp: open_sources_def filter_empty_conv)

lemma closed_after_close:
  "j < length (sources s) \<Longrightarrow>
   closed ((sources s)[i := (sources s ! i)\<lparr>closed := True\<rparr>] ! j) \<longleftrightarrow> j = i \<or> closed (sources s ! j)"
  by (cases "i < length (sources s)") (auto simp: nth_list_update list_update_beyond)

lemma one_live_close_current:
  "one_live s \<Longrightarrow> open_sources (close_current s) = []"
  by (auto simp: one_live_iff open_sources_Nil_iff close_current_def close_source_eq
      closed_after_close split: option.splits)

lemma close_current_fields [simp]:
  "teamInput (close_current s) = teamInput s"
  "seasonId (close_current s) = seasonId s"
  "fieldOptions (close_current s) = fieldOptions s"
  "defaultFields (close_current s) = defaultFields s"
  "selectedFields (close_current s) = selectedFields s"
  "jobId (close_current s) = jobId s"
  "jobStatus (close_current s) = jobStatus s"
  "logs (close_current s) = logs s"
  "error (close_current s) = error s"
  "result (close_current s) = result s"
  "eventSourceRef (close_current s) = eventSourceRef s"
  "isSubmitting (close_current s) = isSubmitting s"
  "requests (close_current s) = requests s"
  "console (close_current s) = console s"
  "length (sources (close_current s)) = length (sources s)"
  by (simp_all add: close_current_def close_source_eq split: option.splits)

lemma one_live_open_sources: "one_live s \<Longrightarrow> length (open_sources s) \<le> 1"
proof -
  assume a: "one_live s"
  have d: "distinct (open_sources s)" by (simp add: open_sources_def)
  have "card (set (open_sources s)) \<le> card (set_option (eventSourceRef s))"
    using a by (intro card_mono) (auto simp: one_live_def)
  also have "\<dots> \<le> 1" by (cases "eventSourceRef s") simp_all
  finally show ?thesis using d by (simp add: distinct_card)
qed

lemma one_live_initial: "one_live initial"
  by (simp add: one_live_def open_sources_def initial_def)

lemma one_live_startStream:
  "one_live s \<Longrightarrow> one_live (startStream c ident s)"
  "one_live s \<Longrightarrow> open_sources (startStream c ident s) = [length (sources s)]"
proof -
  assume a: "one_live s"
  from one_live_close_current [OF a]
  have cl: "\<forall>i<length (sources s). closed (sources (close_current s) ! i)"
    by (simp add: open_sources_Nil_iff)
  then show "one_live (startStream c ident s)"
    by (auto simp: one_live_iff startStream_def Let_def nth_append)
  from cl show "open_sources (startStream c ident s) = [length (sources s)]"
    by (simp add: open_sources_def startStream_def Let_def nth_append filter_empty_conv)
qed

lemma one_live_close_source: "one_live s \<Longrightarrow> one_live (close_source i s)"
  by (auto simp: one_live_iff close_source_eq closed_after_close)

lemma one_live_close_current': "one_live s \<Longrightarrow> one_live (close_current s)"
  by (simp add: close_current_def one_live_close_source split: option.splits)

lemma one_live_update [simp]:
  "one_live (s\<lparr>teamInput := a\<rparr>) = one_live s"
  "one_live (s\<lparr>seasonId := a\<rparr>) = one_live s"
  "one_live (s\<lparr>fieldOptions := b\<rparr>) = one_live s"
  "one_live (s\<lparr>defaultFields := c\<rparr>) = one_live s"
  "one_live (s\<lparr>selectedFields := c\<rparr>) = one_live s"
  "one_live (s\<lparr>jobId := d\<rparr>) = one_live s"
  "one_live (s\<lparr>jobStatus := a\<rparr>) = one_live s"
  "one_live (s\<lparr>logs := c\<rparr>) = one_live s"
  "one_live (s\<lparr>error := d\<rparr>) = one_live s"
  "one_live (s\<lparr>result := e\<rparr>) = one_live s"
  "one_live (s\<lparr>isSubmitting := f\<rparr>) = one_live s"
  "one_live (s\<lparr>requests := g\<rparr>) = one_live s"
  "one_live (s\<lparr>console := c\<rparr>) = one_live s"
  by (simp_all add: one_live_def open_sources_def)

lemma open_sources_update [simp]:
  "open_sources (s\<lparr>teamInput := a\<rparr>) = open_sources s"
  "open_sources (s\<lparr>seasonId := a\<rparr>) = open_sources s"
  "open_sources (s\<lparr>fieldOptions := b\<rparr>) = open_sources s"
  "open_sources (s\<lparr>defaultFields := c\<rparr>) = open_sources s"
  "open_sources (s\<lparr>selectedFields := c\<rparr>) = open_sources s"
  "open_sources (s\<lparr>jobId := d\<rparr>) = open_sources s"
  "open_sources (s\<lparr>jobStatus := a\<rparr>) = open_sources s"
  "open_sources (s\<lparr>logs := c\<rparr>) = open_sources s"
  "open_sources (s\<lparr>error := d\<rparr>) = open_sources s"
  "open_sources (s\<lparr>result := e\<rparr>) = open_sources s"
  "open_sources (s\<lparr>eventSourceRef := r\<rparr>) = open_sources s"
  "open_sources (s\<lparr>isSubmitting := f\<rparr>) = open_sources s"
  "open_sources (s\<lparr>requests := g\<rparr>) = open_sources s"
  "open_sources (s\<lparr>console := c\<rparr>) = open_sources s"
  by (simp_all add: open_sources_def)

lemma one_live_no_open: "open_sources s = [] \<Longrightarrow> one_live (s\<lparr>eventSourceRef := r\<rparr>)"
  by (simp add: one_live_def)

lemma one_live_closed_ref:
  "one_live s \<Longrightarrow> one_live ((close_current s)\<lparr>eventSourceRef := None\<rparr>)"
  by (simp add: one_live_no_open one_live_close_current)

lemma one_live_handleStreamEvent:
  "one_live s \<Longrightarrow> one_live (handleStreamEvent fmt now ev s)"
  by (cases ev) (simp_all add: appendLog_def one_live_no_open one_live_close_current)

lemma one_live_onerror:
  assumes "one_live s" "i < length (sources s)" "\<not> closed (sources s ! i)"
  shows "one_live (onerror i s)" "open_sources (onerror i s) = []"
proof -
  from assms have "eventSourceRef s = Some i" by (simp add: one_live_iff)
  then have "close_source i s = close_current s" by (simp add: close_current_def)
  then have "open_sources (close_source i s) = []"
    using assms(1) by (simp add: one_live_close_current)
  then show "open_sources (onerror i s) = []" by (simp add: onerror_def Let_def)
  then show "one_live (onerror i s)" by (simp add: one_live_def)
qed

lemma one_live_step: "one_live s \<Longrightarrow> one_live (step fmt s inp)"
proof (cases inp)
  case (FieldsResponse r)
  assume "one_live s"
  then show ?thesis unfolding FieldsResponse by (cases r) (simp_all add: console_error_def Let_def)
next
  case Submit
  assume "one_live s"
  then show ?thesis unfolding Submit
    by (simp add: onSubmit_def Let_def resetJobState_def one_live_no_open one_live_close_current)
next
  case (RunResponse k r)
  assume a: "one_live s"
  show ?thesis unfolding RunResponse using a
    by (cases r) (simp_all add: onSubmit_resume_def Let_def one_live_startStream submit_failed_def console_error_def)
next
  case (Message i d now)
  assume a: "one_live s"
  show ?thesis unfolding Message using a
    by (cases d) (simp_all add: onmessage_def one_live_handleStreamEvent console_error_def)
next
  case (TransportError i)
  assume a: "one_live s"
  show ?thesis unfolding TransportError using a
    by (simp add: one_live_onerror)
next
  case Unmount
  assume "one_live s"
  then show ?thesis unfolding Unmount by (simp add: unmount_def one_live_close_current')
qed (simp_all add: toggleField_def selectAll_def selectDefault_def clearFields_def)

lemma one_live_run: "one_live s \<Longrightarrow> one_live (run fmt s ins)"
  unfolding run_def by (induction ins arbitrary: s) (simp_all add: one_live_step)


lemma run_append: "run fmt s (xs @ ys) = run fmt (run fmt s xs) ys"
  by (simp add: run_def)

lemma run_Cons: "run fmt s (x # xs) = run fmt (step fmt s x) xs"
  by (simp add: run_def)

lemma run_Nil: "run fmt s [] = s"
  by (simp add: run_def)

lemma one_live_reachable: "one_live (run fmt initial ins)"
  by (simp add: one_live_run one_live_initial)

subsection \<open>Behind the submit button\<close>

lemma gated_initial: "gated initial"
  by (simp add: gated_def one_live_initial) (simp add: initial_def open_sources_def)

lemma settle_all:
  assumes "\<forall>j<length rs. \<forall>k<length rs. \<not> settled (rs ! j) \<and> \<not> settled (rs ! k) \<longrightarrow> j = k"
      and "k < length rs" and "\<not> settled (rs ! k)"
  shows "list_all settled (rs[k := (rs ! k)\<lparr>settled := True\<rparr>])"
  unfolding list_all_length
proof (intro allI impI)
  fix j assume "j < length (rs[k := (rs ! k)\<lparr>settled := True\<rparr>])"
  then have j: "j < length rs" by simp
  show "settled (rs[k := (rs ! k)\<lparr>settled := True\<rparr>] ! j)"
  proof (cases "j = k")
    case True
    then show ?thesis using j by simp
  next
    case False
    with assms j have "settled (rs ! j)" by blast
    with False j show ?thesis by simp
  qed
qed

lemma gated_submit:
  assumes "gated s" "\<not> isSubmitting s"
  shows "gated (onSubmit s)"
proof (cases "parseTeamIds (teamInput s) = []")
  case True
  with assms(1) show ?thesis
    by (simp add: onSubmit_def gated_def one_live_def open_sources_def)
next
  case False
  from assms have all: "list_all settled (requests s)" by (auto simp: gated_def)
  have ol: "one_live s" using assms(1) by (simp add: gated_def)
  have closed: "open_sources (resetJobState s) = []"
    using ol by (simp add: resetJobState_def one_live_close_current)
  have uniq: "j = k" if "j < Suc (length (requests s))" "k < Suc (length (requests s))"
      "\<not> settled ((requests s @ [r]) ! j)" "\<not> settled ((requests s @ [r]) ! k)" for j k r
  proof -
    from all have "\<forall>n<length (requests s). settled (requests s ! n)"
      by (simp add: list_all_length)
    with that show ?thesis
      by (cases "j < length (requests s)"; cases "k < length (requests s)")
         (auto simp: nth_append)
  qed
  show ?thesis
    using False closed uniq
    by (simp add: onSubmit_def Let_def gated_def one_live_no_open[of "resetJobState s"] one_live_def)
      (auto simp: resetJobState_def)
qed


lemma gated_resume:
  assumes "gated s"
  shows "gated (onSubmit_resume k r s)"
proof (cases "k < length (requests s) \<and> \<not> settled (requests s ! k)")
  case False
  with assms show ?thesis by (auto simp: onSubmit_resume_def)
next
  case True
  let ?rs = "(requests s)[k := (requests s ! k)\<lparr>settled := True\<rparr>]"
  let ?s1 = "s\<lparr>requests := ?rs\<rparr>"
  have ol: "one_live s" using assms by (simp add: gated_def)
  have "\<not> list_all settled (requests s)"
    using True by (auto simp: list_all_length)
  with assms have none: "open_sources s = []" and res: "result s = None"
    and sub: "isSubmitting s"
    by (auto simp: gated_def)
  have all: "list_all settled ?rs"
    using assms True by (intro settle_all) (simp_all add: gated_def)
  have failed: "gated (submit_failed err ?s1)" for err
    using all none res ol by (auto simp: gated_def submit_failed_def console_error_def list_all_length)
  show ?thesis
  proof (cases r)
    case (OkJob ident)
    have "gated (startStream c ident (?s1\<lparr>jobId := Some ident, jobStatus := js ''running''\<rparr>))" for c
      using all res ol sub
      by (auto simp: gated_def one_live_startStream list_all_length)
         (simp_all add: startStream_def Let_def)
    with True OkJob show ?thesis by (simp add: onSubmit_resume_def Let_def)
  qed (use True failed in \<open>simp_all add: onSubmit_resume_def Let_def\<close>)
qed

lemma gated_message:
  assumes "gated s" "i < length (sources s)" "\<not> closed (sources s ! i)"
  shows "gated (onmessage fmt now d s)"
proof -
  have ol: "one_live s" using assms by (simp add: gated_def)
  have "open_sources s \<noteq> []"
    using assms(2,3) by (auto simp: open_sources_Nil_iff)
  with assms(1) have all: "list_all settled (requests s)" and res: "result s = None"
    by (auto simp: gated_def)
  have ev: "gated (handleStreamEvent fmt now ev s)" for ev
  proof (cases ev)
    case (StatusEvent st ts)
    with assms(1) res show ?thesis by (simp add: gated_def)
  next
    case (LogEvent m ts)
    with assms(1) show ?thesis by (simp add: gated_def appendLog_def)
  next
    case (ErrorEvent e ts)
    with all res ol show ?thesis
      by (auto simp: gated_def one_live_no_open one_live_close_current list_all_length)
  next
    case (ResultEvent st data ts)
    with all ol show ?thesis
      by (auto simp: gated_def one_live_no_open one_live_close_current list_all_length)
  qed
  show ?thesis
    using assms(1) ev by (cases d) (simp_all add: onmessage_def console_error_def gated_def)
qed

lemma gated_onerror:
  assumes "gated s" "i < length (sources s)" "\<not> closed (sources s ! i)"
  shows "gated (onerror i s)"
proof -
  have ol: "one_live s" using assms by (simp add: gated_def)
  have "open_sources s \<noteq> []"
    using assms(2,3) by (auto simp: open_sources_Nil_iff)
  with assms(1) have all: "list_all settled (requests s)" and res: "result s = None"
    by (auto simp: gated_def)
  have "open_sources (onerror i s) = []" "one_live (onerror i s)"
    using ol assms(2,3) by (simp_all add: one_live_onerror)
  moreover have "requests (onerror i s) = requests s" "result (onerror i s) = None"
    using res by (simp_all add: onerror_def Let_def close_source_eq)
  ultimately show ?thesis
    using all by (auto simp: gated_def list_all_length)
qed

lemma gated_step:
  assumes "gated s" "ui_allows s inp"
  shows "gated (step fmt s inp)"
proof (cases inp)
  case (FieldsResponse r)
  with assms(1) show ?thesis
    by (cases r) (simp_all add: gated_def console_error_def Let_def)
next
  case Submit
  with assms show ?thesis by (simp add: gated_submit)
next
  case (RunResponse k r)
  with assms(1) show ?thesis by (simp add: gated_resume)
next
  case (Message i d now)
  with assms(1) show ?thesis by (auto simp: gated_message)
next
  case (TransportError i)
  with assms(1) show ?thesis by (auto simp: gated_onerror)
next
  case Unmount
  have "open_sources (close_current s) = []" "one_live (close_current s)"
    using assms(1) by (simp_all add: gated_def one_live_close_current one_live_close_current')
  with assms(1) Unmount show ?thesis
    by (simp add: unmount_def gated_def)
qed (use assms(1) in \<open>simp_all add: gated_def toggleField_def selectAll_def selectDefault_def clearFields_def\<close>)

lemma ui_trace_append:
  "ui_trace fmt s (xs @ ys) \<longleftrightarrow> ui_trace fmt s xs \<and> ui_trace fmt (run fmt s xs) ys"
  by (induction xs arbitrary: s) (simp_all add: run_Nil run_Cons del: step.simps)

lemma gated_run: "gated s \<Longrightarrow> ui_trace fmt s ins \<Longrightarrow> gated (run fmt s ins)"
  by (induction ins arbitrary: s) (simp_all add: run_Nil run_Cons gated_step del: step.simps)

subsection \<open>One stream at a time\<close>

text \<open>
  C4 (at most one live channel): in every state the page can reach, at most one
  \<open>EventSource\<close> is open; after \<open>startStream\<close> the only open one is the one it has just
  constructed; a submission that passes validation, and unmounting the component, leave
  none open. A submission that validation rejects returns before \<open>resetJobState\<close>; but
  whenever the submit button is enabled no stream is open, so that through the form
  every submission leaves none open.
\<close>

theorem C4_at_most_one_live_channel:
  "length (open_sources (run fmt initial ins)) \<le> 1 \<and>
   open_sources (startStream captured ident (run fmt initial ins)) =
     [length (sources (run fmt initial ins))] \<and>
   (parseTeamIds (teamInput (run fmt initial ins)) \<noteq> [] \<longrightarrow>
      open_sources (step fmt (run fmt initial ins) Submit) = []) \<and>
   (ui_trace fmt initial (ins @ [Submit]) \<longrightarrow>
      open_sources (step fmt (run fmt initial ins) Submit) = []) \<and>
   open_sources (step fmt (run fmt initial ins) Unmount) = []"
proof -
  let ?s = "run fmt initial ins"
  have a: "one_live ?s" by (rule one_live_reachable)
  have "length (open_sources ?s) \<le> 1"
    using a by (rule one_live_open_sources)
  moreover have "open_sources (startStream captured ident ?s) = [length (sources ?s)]"
    using a by (rule one_live_startStream)
  moreover have valid: "open_sources (step fmt ?s Submit) = []"
    if "parseTeamIds (teamInput ?s) \<noteq> []"
    using that a by (simp add: onSubmit_def Let_def resetJobState_def one_live_close_current)
  moreover have "open_sources (step fmt ?s Submit) = []" if "ui_trace fmt initial (ins @ [Submit])"
  proof (cases "parseTeamIds (teamInput ?s) = []")
    case True
    from that have "ui_trace fmt initial ins" "\<not> isSubmitting ?s"
      by (simp_all add: ui_trace_append)
    with gated_run [OF gated_initial] have "open_sources ?s = []"
      by (auto simp: gated_def)
    with True show ?thesis by (simp add: onSubmit_def)
  next
    case False
    then show ?thesis by (rule valid)
  qed
  moreover have "open_sources (step fmt ?s Unmount) = []"
    using a by (simp add: unmount_def one_live_close_current)
  ultimately show ?thesis by blast
qed

theorem C4_at_most_one_live_channel_witness:
  "open_sources (run id initial
     [TypeTeamInput (js ''6251''), Submit, RunResponse 0 (OkJob (js ''abc123'')),
      TransportError 0]) = [] \<and>
   open_sources (startStream None (js ''def456'') (run id initial
     [TypeTeamInput (js ''6251''), Submit, RunResponse 0 (OkJob (js ''abc123'')),
      TransportError 0])) = [1] \<and>
   open_sources (step id (run id initial
     [TypeTeamInput (js ''6251''), Submit, RunResponse 0 (OkJob (js ''abc123'')),
      TransportError 0]) Submit) = [] \<and>
   open_sources (step id (run id initial
     [TypeTeamInput (js ''6251''), Submit, RunResponse 0 (OkJob (js ''abc123'')),
      TransportError 0]) Unmount) = []"
proof -
  let ?ins = "[TypeTeamInput (js ''6251''), Submit, RunResponse 0 (OkJob (js ''abc123'')),
               TransportError 0]"
  have valid: "parseTeamIds (teamInput (run id initial ?ins)) \<noteq> []"
    by code_simp
  have ui: "ui_trace id initial (?ins @ [Submit])"
    by code_simp
  have "open_sources (run id initial ?ins) = []" "length (sources (run id initial ?ins)) = 1"
    by code_simp+
  with valid ui C4_at_most_one_live_channel [of id ?ins None "js ''def456''"] show ?thesis
    by simp
qed

lemma no_open_stream_step:
  "open_sources s = [] \<Longrightarrow> stream_input inp \<Longrightarrow> step fmt s inp = s"
  by (cases inp) (auto simp: open_sources_Nil_iff)

lemma no_open_stream_run:
  "open_sources s = [] \<Longrightarrow> list_all stream_input ins \<Longrightarrow> run fmt s ins = s"
  by (induction ins) (simp_all add: run_Nil run_Cons no_open_stream_step)

lemma terminal_closes:
  "one_live s \<Longrightarrow> terminal ev \<Longrightarrow> open_sources (handleStreamEvent fmt now ev s) = []"
  by (cases ev) (simp_all add: one_live_close_current)

text \<open>
  C5 (terminal exclusivity): once a result or an error event has been applied (delivered
  on the open stream of a reachable state), whatever messages and transport errors arrive
  afterwards, on any stream, change neither the status, nor the result, nor the error.
\<close>

theorem C5_terminal_exclusivity:
  assumes "i < length (sources (run fmt initial ins))"
      and "\<not> closed (sources (run fmt initial ins) ! i)"
      and "terminal ev"
      and "list_all stream_input later"
  shows "jobStatus (run fmt initial (ins @ Message i (Json ev) now # later)) =
           jobStatus (run fmt initial (ins @ [Message i (Json ev) now])) \<and>
         result (run fmt initial (ins @ Message i (Json ev) now # later)) =
           result (run fmt initial (ins @ [Message i (Json ev) now])) \<and>
         error (run fmt initial (ins @ Message i (Json ev) now # later)) =
           error (run fmt initial (ins @ [Message i (Json ev) now]))"
proof -
  let ?s = "run fmt initial ins"
  let ?t = "step fmt ?s (Message i (Json ev) now)"
  have "?t = handleStreamEvent fmt now ev ?s"
    using assms(1,2) by (simp add: onmessage_def)
  then have "open_sources ?t = []"
    using terminal_closes [OF one_live_reachable assms(3)] by simp
  then have "run fmt ?t later = ?t"
    using assms(4) by (rule no_open_stream_run)
  then show ?thesis
    by (simp add: run_append run_Cons run_Nil)
qed

theorem C5_terminal_exclusivity_witness:
  "jobStatus (run id initial
     ([TypeTeamInput (js ''6251''), Submit, RunResponse 0 (OkJob (js ''abc123''))] @
      Message 0 (Json (ErrorEvent (js ''scrape failed'') None)) (js ''10:00:00'') #
      [Message 0 (Json (StatusEvent (Some (js ''running'')) None)) (js ''10:00:01''),
       TransportError 0])) = js ''failed'' \<and>
   result (run id initial
     ([TypeTeamInput (js ''6251''), Submit, RunResponse 0 (OkJob (js ''abc123''))] @
      Message 0 (Json (ErrorEvent (js ''scrape failed'') None)) (js ''10:00:00'') #
      [Message 0 (Json (StatusEvent (Some (js ''running'')) None)) (js ''10:00:01''),
       TransportError 0])) = None \<and>
   error (run id initial
     ([TypeTeamInput (js ''6251''), Submit, RunResponse 0 (OkJob (js ''abc123''))] @
      Message 0 (Json (ErrorEvent (js ''scrape failed'') None)) (js ''10:00:00'') #
      [Message 0 (Json (StatusEvent (Some (js ''running'')) None)) (js ''10:00:01''),
       TransportError 0])) = Some (js ''scrape failed'')"
proof -
  let ?ins = "[TypeTeamInput (js ''6251''), Submit, RunResponse 0 (OkJob (js ''abc123''))]"
  let ?ev = "ErrorEvent (js ''scrape failed'') None"
  let ?later = "[Message 0 (Json (StatusEvent (Some (js ''running'')) None)) (js ''10:00:01''),
                 TransportError 0]"
  have 1: "0 < length (sources (run id initial ?ins))" by code_simp
  have 2: "\<not> closed (sources (run id initial ?ins) ! 0)" by code_simp
  have 3: "terminal ?ev" by simp
  have 4: "list_all stream_input ?later" by simp
  have "jobStatus (run id initial (?ins @ [Message 0 (Json ?ev) (js ''10:00:00'')])) = js ''failed''"
    by code_simp
  moreover
  have "result (run id initial (?ins @ [Message 0 (Json ?ev) (js ''10:00:00'')])) = None"
    by code_simp
  moreover
  have "error (run id initial (?ins @ [Message 0 (Json ?ev) (js ''10:00:00'')])) =
          Some (js ''scrape failed'')"
    by code_simp
  ultimately show ?thesis
    using C5_terminal_exclusivity [OF 1 2 3 4, of "js ''10:00:00''"] by simp
qed

text \<open>
  C9 (malformed message): when an open stream delivers a log event, a payload that is
  not JSON and a second log event, the two log lines are appended in this order; the
  handler of the malformed payload returns normally, with a line on the console and no
  other change; and in any state a malformed payload changes nothing but the console.
\<close>

theorem C9_malformed_message:
  assumes "i < length (sources s)" and "\<not> closed (sources s ! i)"
  shows "logs (run fmt s [Message i (Json (LogEvent m1 t1)) n1, Message i NotJson n2,
                          Message i (Json (LogEvent m2 t2)) n3]) =
           logs s @ [log_line fmt n1 m1 t1, log_line fmt n3 m2 t2] \<and>
         step fmt (step fmt s (Message i (Json (LogEvent m1 t1)) n1)) (Message i NotJson n2) =
           console_error (js ''Failed to parse stream payload'')
             (step fmt s (Message i (Json (LogEvent m1 t1)) n1)) \<and>
         (step fmt s' (Message j NotJson n))\<lparr>console := console s'\<rparr> = s'"
  using assms
  by (simp add: run_Cons run_Nil onmessage_def appendLog_def console_error_def)

theorem C9_malformed_message_witness:
  "logs (run id
     (run id initial [TypeTeamInput (js ''6251''), Submit, RunResponse 0 (OkJob (js ''abc123''))])
     [Message 0 (Json (LogEvent (js ''one'') None)) (js ''10:00:00''),
      Message 0 NotJson (js ''10:00:01''),
      Message 0 (Json (LogEvent (js ''two'') None)) (js ''10:00:02'')]) =
   [js ''[10:00:00] one'', js ''[10:00:02] two'']"
proof -
  let ?s = "run id initial [TypeTeamInput (js ''6251''), Submit, RunResponse 0 (OkJob (js ''abc123''))]"
  have 1: "0 < length (sources ?s)" by code_simp
  have 2: "\<not> closed (sources ?s ! 0)" by code_simp
  have 3: "logs ?s = []" by code_simp
  have 4: "log_line id (js ''10:00:00'') (js ''one'') None = js ''[10:00:00] one''"
          "log_line id (js ''10:00:02'') (js ''two'') None = js ''[10:00:02] two''"
    by (simp_all add: log_line_def js_def)
  from C9_malformed_message [OF 1 2, of id "js ''one''" None "js ''10:00:00''" "js ''10:00:01''"
      "js ''two''" None "js ''10:00:02''"]
  show ?thesis by (simp add: 3 4)
qed

section \<open>Losing the connection\<close>

lemma streaming_progress:
  "streaming i s \<Longrightarrow> progress ev \<Longrightarrow> streaming i (step fmt s (Message i (Json ev) now))"
  by (cases ev) (simp_all add: streaming_def onmessage_def appendLog_def)

lemma streaming_run:
  "streaming i s \<Longrightarrow> list_all (\<lambda>(ev, now). progress ev) evs \<Longrightarrow>
   streaming i (run fmt s (map (\<lambda>(ev, now). Message i (Json ev) now) evs))"
  by (induction evs arbitrary: s) (auto simp: run_Nil run_Cons streaming_progress simp del: step.simps)

lemma streaming_onerror:
  assumes "streaming i s"
  shows "jobStatus (step fmt s (TransportError i)) = js ''running''"
    "error (step fmt s (TransportError i)) = Some connection_lost"
    "closed (sources (step fmt s (TransportError i)) ! i)"
    "eventSourceRef (step fmt s (TransportError i)) = None"
    "result (step fmt s (TransportError i)) = None"
  using assms by (simp_all add: streaming_def onerror_def Let_def close_source_eq)

lemma streaming_start:
  assumes "parseTeamIds (teamInput s0) \<noteq> []" and "result s0 = None"
  shows "streaming (length (sources s0))
           (run fmt s0 [Submit, RunResponse (length (requests s0)) (OkJob ident)])"
  using assms
  by (simp add: run_Cons run_Nil onSubmit_def Let_def resetJobState_def onSubmit_resume_def
      startStream_def streaming_def nth_append)

text \<open>
  C1 (connection drop), as amended: a job is submitted with valid input while no result is
  on display, the create-job request returns a job id, the stream delivers any number of
  \<open>running\<close> status events and log events and then fails. In the final state the status
  is still \<open>running\<close>, the error is the connectivity message, the stream is closed, the ref
  is empty and no result is recorded.
\<close>

theorem C1_connection_drop:
  assumes "parseTeamIds (teamInput s0) \<noteq> []" and "result s0 = None"
      and "list_all (\<lambda>(ev, now). progress ev) evs"
  shows "let i = length (sources s0);
             s = run fmt s0 ([Submit, RunResponse (length (requests s0)) (OkJob ident)] @
                             map (\<lambda>(ev, now). Message i (Json ev) now) evs @
                             [TransportError i])
         in jobStatus s = js ''running'' \<and> error s = Some connection_lost \<and>
            closed (sources s ! i) \<and> eventSourceRef s = None \<and> result s = None"
proof -
  let ?i = "length (sources s0)"
  let ?s = "run fmt (run fmt s0 [Submit, RunResponse (length (requests s0)) (OkJob ident)])
              (map (\<lambda>(ev, now). Message ?i (Json ev) now) evs)"
  have "streaming ?i ?s"
    using streaming_start [OF assms(1,2)] assms(3) by (rule streaming_run)
  from streaming_onerror [OF this, of fmt] show ?thesis
    by (simp add: Let_def run_append run_Cons run_Nil)
qed

theorem C1_connection_drop_witness:
  "(let s = run id (initial\<lparr>teamInput := js ''6251''\<rparr>)
             ([Submit, RunResponse 0 (OkJob (js ''abc123''))] @
              [Message 0 (Json (StatusEvent (Some (js ''running'')) None)) (js ''10:00:00''),
               Message 0 (Json (LogEvent (js ''fetching 6251'') None)) (js ''10:00:01'')] @
              [TransportError 0])
    in jobStatus s = js ''running'' \<and> error s = Some connection_lost \<and>
       closed (sources s ! 0) \<and> eventSourceRef s = None \<and> result s = None)"
proof -
  let ?s0 = "initial\<lparr>teamInput := js ''6251''\<rparr>"
  let ?evs = "[(StatusEvent (Some (js ''running'')) None, js ''10:00:00''),
               (LogEvent (js ''fetching 6251'') None, js ''10:00:01'')]"
  have 1: "parseTeamIds (teamInput ?s0) \<noteq> []" by code_simp
  have 2: "result ?s0 = None" by (simp add: initial_def)
  have 3: "list_all (\<lambda>(ev, now). progress ev) ?evs" by simp
  from C1_connection_drop [OF 1 2 3, of id "js ''abc123''"] show ?thesis
    by (simp add: initial_def)
qed

text \<open>
  The scenario of the specification: the status after the connection drop is not
  \<open>failed\<close>.
\<close>

theorem C1_counterexample:
  "jobStatus (run id initial
     [TypeTeamInput (js ''6251''), Submit, RunResponse 0 (OkJob (js ''abc123'')),
      Message 0 (Json (StatusEvent (Some (js ''running'')) None)) (js ''10:00:00''),
      Message 0 (Json (LogEvent (js ''fetching 6251'') None)) (js ''10:00:01''),
      TransportError 0]) \<noteq> js ''failed''"
  by code_simp

text \<open>
  C2 (connectivity error when no result is recorded): a second job is submitted while the
  result of the first is on display. \<open>resetJobState\<close> clears the result, but the
  \<open>onerror\<close> handler of the second stream tests the \<open>result\<close> captured by the
  \<open>startStream\<close> closure of the submitting render. When the second stream fails before
  any terminal event, no result is recorded for the second job and yet no error is set.
\<close>

theorem C2_stale_result:
  "(let ins = [TypeTeamInput (js ''6251''), Submit, RunResponse 0 (OkJob (js ''abc123'')),
        Message 0 (Json (ResultEvent (js ''completed'') club_a None)) (js ''10:00:00''),
        Submit, RunResponse 1 (OkJob (js ''def456'')),
        Message 1 (Json (StatusEvent (Some (js ''running'')) None)) (js ''10:05:00''),
        TransportError 1];
        s = run id initial ins
    in ui_trace id initial ins \<and>
       error s = None \<and> result s = None \<and> jobStatus s = js ''running'' \<and>
       open_sources s = [] \<and> isSubmitting s = False)"
  by code_simp

section \<open>Result, error and status\<close>

text \<open>
  C3 (result and error against the status), as amended: in every state reached by inputs
  that respect the disabled submit button, a recorded result comes with the status
  \<open>completed\<close>; the handler of a result event sets the status \<open>completed\<close> together
  with the result, the handler of an error event and the \<open>catch\<close> of \<open>onSubmit\<close> set the
  status \<open>failed\<close> together with the error.
\<close>

theorem C3_status_and_outcome:
  "(ui_trace fmt initial ins \<and> result (run fmt initial ins) \<noteq> None \<longrightarrow>
      jobStatus (run fmt initial ins) = js ''completed'') \<and>
   jobStatus (handleStreamEvent fmt now (ResultEvent st data ts) s) = js ''completed'' \<and>
   result (handleStreamEvent fmt now (ResultEvent st data ts) s) = Some data \<and>
   jobStatus (handleStreamEvent fmt now (ErrorEvent err ts) s) = js ''failed'' \<and>
   error (handleStreamEvent fmt now (ErrorEvent err ts) s) \<noteq> None \<and>
   jobStatus (submit_failed e s) = js ''failed'' \<and>
   error (submit_failed e s) \<noteq> None"
proof -
  have "jobStatus (run fmt initial ins) = js ''completed''"
    if "ui_trace fmt initial ins" "result (run fmt initial ins) \<noteq> None"
    using gated_run [OF gated_initial that(1)] that(2) by (simp add: gated_def)
  then show ?thesis
    by (simp add: submit_failed_def)
qed

theorem C3_status_and_outcome_witness:
  "jobStatus (run id initial
     [TypeTeamInput (js ''6251''), Submit, RunResponse 0 (OkJob (js ''abc123'')),
      Message 0 (Json (ResultEvent (js ''completed'') club_a None)) (js ''10:00:00'')]) =
   js ''completed''"
proof -
  let ?ins = "[TypeTeamInput (js ''6251''), Submit, RunResponse 0 (OkJob (js ''abc123'')),
      Message 0 (Json (ResultEvent (js ''completed'') club_a None)) (js ''10:00:00'')]"
  have 1: "ui_trace id initial ?ins" by code_simp
  have 2: "result (run id initial ?ins) \<noteq> None" by code_simp
  from C3_status_and_outcome [of id ?ins] 1 2 show ?thesis by blast
qed

text \<open>
  When the field catalog cannot be loaded the error is set and the status stays \<open>Idle\<close>.
\<close>

theorem C3_counterexample:
  "error (run id initial [FieldsResponse (FieldsFailed (js ''Failed to load field definitions''))])
     \<noteq> None \<and>
   jobStatus (run id initial [FieldsResponse (FieldsFailed (js ''Failed to load field definitions''))])
     \<noteq> js ''failed''"
  by code_simp

lemma attempt_submit:
  assumes "one_live s" "parseTeamIds (teamInput s) \<noteq> []"
  shows "attempt (length (requests s)) (onSubmit s)"
proof -
  have "open_sources (resetJobState s) = []"
    using assms(1) by (simp add: resetJobState_def one_live_close_current)
  then show ?thesis
    using assms(2)
    by (simp add: attempt_def onSubmit_def Let_def one_live_def) (simp add: resetJobState_def)
qed

lemma attempt_resume:
  assumes "attempt k s"
  shows "attempt k (onSubmit_resume k r s)"
proof (cases "\<not> settled (requests s ! k)")
  case False
  with assms show ?thesis by (simp add: onSubmit_resume_def)
next
  case True
  let ?rs = "(requests s)[k := (requests s ! k)\<lparr>settled := True\<rparr>]"
  let ?s1 = "s\<lparr>requests := ?rs\<rparr>"
  from assms True have k: "k < length (requests s)" and ol: "one_live s"
    and none: "open_sources s = []" and res: "result s = None" "error s = None"
    by (auto simp: attempt_def)
  have failed: "attempt k (submit_failed err ?s1)" for err
    using k ol none res by (simp add: attempt_def submit_failed_def console_error_def)
  show ?thesis
  proof (cases r)
    case (OkJob ident)
    have "attempt k (startStream c ident (?s1\<lparr>jobId := Some ident, jobStatus := js ''running''\<rparr>))" for c
      using k ol res by (simp add: attempt_def one_live_startStream) (simp add: startStream_def Let_def)
    with True k OkJob show ?thesis by (simp add: onSubmit_resume_def Let_def)
  qed (use True k failed in \<open>simp_all add: onSubmit_resume_def Let_def\<close>)
qed

lemma attempt_message:
  assumes "attempt k s" "i < length (sources s)" "\<not> closed (sources s ! i)"
  shows "attempt k (onmessage fmt now d s)"
proof -
  have "open_sources s \<noteq> []"
    using assms(2,3) by (auto simp: open_sources_Nil_iff)
  with assms(1) have k: "k < length (requests s)" "settled (requests s ! k)" and ol: "one_live s"
    and res: "result s = None" "error s = None"
    by (auto simp: attempt_def)
  have "attempt k (handleStreamEvent fmt now ev s)" for ev
    using k ol res assms(1)
    by (cases ev) (auto simp: attempt_def appendLog_def one_live_no_open one_live_close_current)
  then show ?thesis
    using assms(1) by (cases d) (simp_all add: onmessage_def console_error_def attempt_def)
qed

lemma attempt_onerror:
  assumes "attempt k s" "i < length (sources s)" "\<not> closed (sources s ! i)"
  shows "attempt k (onerror i s)"
proof -
  have "open_sources s \<noteq> []"
    using assms(2,3) by (auto simp: open_sources_Nil_iff)
  with assms(1) have k: "k < length (requests s)" "settled (requests s ! k)" and ol: "one_live s"
    and res: "result s = None"
    by (auto simp: attempt_def)
  have "open_sources (onerror i s) = []" "one_live (onerror i s)"
    using ol assms(2,3) by (simp_all add: one_live_onerror)
  moreover have "requests (onerror i s) = requests s" "result (onerror i s) = None"
    using res by (simp_all add: onerror_def Let_def close_source_eq)
  ultimately show ?thesis
    using k by (simp add: attempt_def)
qed

lemma attempt_step:
  assumes "attempt k s" "job_input k inp"
  shows "attempt k (step fmt s inp)"
proof (cases inp)
  case (RunResponse j r)
  with assms show ?thesis by (simp add: attempt_resume)
next
  case (Message i d now)
  with assms(1) show ?thesis by (auto simp: attempt_message)
next
  case (TransportError i)
  with assms(1) show ?thesis by (auto simp: attempt_onerror)
next
  case Unmount
  have "open_sources (close_current s) = []" "one_live (close_current s)"
    using assms(1) by (simp_all add: attempt_def one_live_close_current one_live_close_current')
  with assms(1) Unmount show ?thesis
    by (auto simp: unmount_def attempt_def)
qed (use assms in \<open>simp_all add: attempt_def toggleField_def selectAll_def selectDefault_def clearFields_def\<close>)

lemma attempt_run: "attempt k s \<Longrightarrow> list_all (job_input k) ins \<Longrightarrow> attempt k (run fmt s ins)"
  by (induction ins arbitrary: s) (simp_all add: run_Nil run_Cons attempt_step del: step.simps)

text \<open>
  C6 (result and error exclude each other), as amended: after a submission that passes
  validation, and through any sequence of inputs of that job attempt (the response to its
  create-job request, messages and transport errors of the streams, edits of the form,
  unmounting), the result and the error are never both set.
\<close>

theorem C6_one_job_attempt:
  assumes "parseTeamIds (teamInput (run fmt initial before)) \<noteq> []"
      and "list_all (job_input (length (requests (run fmt initial before)))) after"
  shows "result (run fmt initial (before @ Submit # after)) = None \<or>
         error (run fmt initial (before @ Submit # after)) = None"
proof -
  let ?s = "run fmt initial before"
  have "attempt (length (requests ?s)) (step fmt ?s Submit)"
    using one_live_reachable assms(1) by (simp add: attempt_submit)
  then have "attempt (length (requests ?s)) (run fmt (step fmt ?s Submit) after)"
    using assms(2) by (rule attempt_run)
  then show ?thesis
    by (auto simp: attempt_def run_append run_Cons simp del: step.simps)
qed

theorem C6_one_job_attempt_witness:
  "result (run id initial
     ([TypeTeamInput (js ''6251'')] @ Submit #
      [RunResponse 0 (OkJob (js ''abc123'')),
       Message 0 (Json (StatusEvent (Some (js ''running'')) None)) (js ''10:00:00''),
       Message 0 (Json (ErrorEvent (js ''scrape failed'') None)) (js ''10:00:01''),
       TransportError 0])) = None"
proof -
  let ?before = "[TypeTeamInput (js ''6251'')]"
  let ?after = "[RunResponse 0 (OkJob (js ''abc123'')),
       Message 0 (Json (StatusEvent (Some (js ''running'')) None)) (js ''10:00:00''),
       Message 0 (Json (ErrorEvent (js ''scrape failed'') None)) (js ''10:00:01''),
       TransportError 0]"
  have 1: "parseTeamIds (teamInput (run id initial ?before)) \<noteq> []" by code_simp
  have 2: "list_all (job_input (length (requests (run id initial ?before)))) ?after" by code_simp
  have 3: "error (run id initial (?before @ Submit # ?after)) \<noteq> None" by code_simp
  from C6_one_job_attempt [OF 1 2] 3 show ?thesis by blast
qed

text \<open>
  A submission rejected by validation sets the error and keeps the result of the job
  that completed before.
\<close>

theorem C6_counterexample:
  "ui_trace id initial
     [TypeTeamInput (js ''6251''), Submit, RunResponse 0 (OkJob (js ''abc123'')),
      Message 0 (Json (ResultEvent (js ''completed'') club_a None)) (js ''10:00:00''),
      TypeTeamInput (js '' ''), Submit] \<and>
   result (run id initial
     [TypeTeamInput (js ''6251''), Submit, RunResponse 0 (OkJob (js ''abc123'')),
      Message 0 (Json (ResultEvent (js ''completed'') club_a None)) (js ''10:00:00''),
      TypeTeamInput (js '' ''), Submit]) = Some club_a \<and>
   error (run id initial
     [TypeTeamInput (js ''6251''), Submit, RunResponse 0 (OkJob (js ''abc123'')),
      Message 0 (Json (ResultEvent (js ''completed'') club_a None)) (js ''10:00:00''),
      TypeTeamInput (js '' ''), Submit]) = Some (js ''Provide at least one club ID.'')"
  by code_simp

section \<open>Properties of the download links\<close>

lemma hex_all: "\<forall>n\<in>set [0..<16]. hex_value (hex_digit n) = Some n"
  by code_simp

lemma hex_value_hex_digit: "n < 16 \<Longrightarrow> hex_value (hex_digit n) = Some n"
  using hex_all by simp

lemma ParseHexOctet_percent:
  "b < 256 \<Longrightarrow> ParseHexOctet (hex_digit (b div 16) # hex_digit (b mod 16) # rest) = Some (b, rest)"
  by (simp add: hex_value_hex_digit less_mult_imp_div_less)

lemma continuation_percent:
  "\<forall>b\<in>set bs. b < 256 \<Longrightarrow>
   continuation (length bs) (concat (map percent bs) @ rest) = Some (bs, rest)"
  by (induction bs) (simp_all add: percent_def ParseHexOctet_percent del: ParseHexOctet.simps)

lemma Decode_single:
  "b < 0x80 \<Longrightarrow> Decode (percent b @ rest) = prepend [of_nat b] (Decode rest)"
  by (simp add: percent_def ParseHexOctet_percent leading_ones_def del: ParseHexOctet.simps)

lemma Decode_multi:
  assumes "b < 256" "\<forall>x\<in>set bs. x < 256" "leading_ones b = Suc (length bs)"
    "bs \<noteq> []" "length bs \<le> 3" "utf8_code_point (b # bs) = Some v"
  shows "Decode (concat (map percent (b # bs)) @ rest) = prepend (UTF16EncodeCodePoint v) (Decode rest)"
proof -
  have "Decode (concat (map percent (b # bs)) @ rest) =
        Decode (0x25 # hex_digit (b div 16) # hex_digit (b mod 16) # (concat (map percent bs) @ rest))"
    by (simp add: percent_def)
  also have "\<dots> = prepend (UTF16EncodeCodePoint v) (Decode rest)"
    using assms
    by (simp add: ParseHexOctet_percent continuation_percent del: ParseHexOctet.simps)
  finally show ?thesis .
qed

lemma split_12: "(cp::nat) div 0x40 mod 0x40 * 0x40 + cp mod 0x40 = cp mod 0x1000"
  using mod_mult2_eq [of cp 64 64] by simp

lemma split_18: "(cp::nat) div 0x1000 mod 0x40 * 0x1000 + cp mod 0x1000 = cp mod 0x40000"
  using mod_mult2_eq [of cp 4096 64] by simp

lemma octets_2: "(cp::nat) div 0x40 * 0x40 + cp mod 0x40 = cp"
  by simp

lemma octets_3: "(cp::nat) div 0x1000 * 0x1000 + cp div 0x40 mod 0x40 * 0x40 + cp mod 0x40 = cp"
  using split_12 [of cp] div_mult_mod_eq [of cp 4096] by linarith

lemma octets_4:
  "(cp::nat) div 0x40000 * 0x40000 + cp div 0x1000 mod 0x40 * 0x1000 + cp div 0x40 mod 0x40 * 0x40 +
     cp mod 0x40 = cp"
  using split_12 [of cp] split_18 [of cp] div_mult_mod_eq [of cp 262144] by linarith


lemma code_point_2:
  "a < 32 \<Longrightarrow> b < 64 \<Longrightarrow> 0x80 \<le> a * 0x40 + b \<Longrightarrow>
   utf8_code_point [0xC0 + a, 0x80 + b] = Some (a * 0x40 + b)"
  by (simp add: is_continuation_def)

lemma code_point_3:
  "a < 16 \<Longrightarrow> b < 64 \<Longrightarrow> c < 64 \<Longrightarrow> 0x800 \<le> a * 0x1000 + b * 0x40 + c \<Longrightarrow>
   \<not> (0xD800 \<le> a * 0x1000 + b * 0x40 + c \<and> a * 0x1000 + b * 0x40 + c \<le> 0xDFFF) \<Longrightarrow>
   utf8_code_point [0xE0 + a, 0x80 + b, 0x80 + c] = Some (a * 0x1000 + b * 0x40 + c)"
  by (simp add: is_continuation_def)

lemma code_point_4:
  "a < 8 \<Longrightarrow> b < 64 \<Longrightarrow> c < 64 \<Longrightarrow> d < 64 \<Longrightarrow>
   0x10000 \<le> a * 0x40000 + b * 0x1000 + c * 0x40 + d \<Longrightarrow>
   a * 0x40000 + b * 0x1000 + c * 0x40 + d \<le> 0x10FFFF \<Longrightarrow>
   utf8_code_point [0xF0 + a, 0x80 + b, 0x80 + c, 0x80 + d] =
     Some (a * 0x40000 + b * 0x1000 + c * 0x40 + d)"
  by (simp add: is_continuation_def)

lemma mod64_lt: "(x::nat) mod 0x40 < 0x80"
  by (rule less_trans [of _ 64]) simp_all

lemma Decode_escape:
  assumes "scalar cp"
  shows "Decode (escape cp @ rest) = prepend (UTF16EncodeCodePoint cp) (Decode rest)"
proof -
  consider "cp < 0x80" | "0x80 \<le> cp" "cp < 0x800" | "0x800 \<le> cp" "cp < 0x10000"
    | "0x10000 \<le> cp" "cp < 0x110000"
    using assms unfolding scalar_def by atomize_elim arith
  then show ?thesis
  proof cases
    case 1
    then have "escape cp = percent cp" by (simp add: escape_def utf8_octets_def)
    moreover have "UTF16EncodeCodePoint cp = [of_nat cp]"
      using 1 by (simp add: UTF16EncodeCodePoint_def)
    ultimately show ?thesis using 1 by (simp add: Decode_single)
  next
    case 2
    let ?a = "cp div 0x40" and ?b = "cp mod 0x40"
    have o: "utf8_octets cp = [0xC0 + ?a, 0x80 + ?b]"
      using 2 by (simp add: utf8_octets_def)
    have a: "?a < 32" using 2 by (simp add: less_mult_imp_div_less)
    have m: "?b < 64" by simp
    have "utf8_code_point [0xC0 + ?a, 0x80 + ?b] = Some (?a * 0x40 + ?b)"
      using a 2 by (intro code_point_2) simp_all
    then have v: "utf8_code_point [0xC0 + ?a, 0x80 + ?b] = Some cp"
      by (simp only: octets_2)
    have "Decode (concat (map percent [0xC0 + ?a, 0x80 + ?b]) @ rest) =
          prepend (UTF16EncodeCodePoint cp) (Decode rest)"
      using a v m by (intro Decode_multi) (simp_all add: leading_ones_def mod64_lt del: utf8_code_point.simps)
    then show ?thesis by (simp add: escape_def o)
  next
    case 3
    let ?a = "cp div 0x1000" and ?b = "cp div 0x40 mod 0x40" and ?c = "cp mod 0x40"
    have o: "utf8_octets cp = [0xE0 + ?a, 0x80 + ?b, 0x80 + ?c]"
      using 3 by (simp add: utf8_octets_def)
    have a: "?a < 16" using 3 by (simp add: less_mult_imp_div_less)
    have m: "?b < 64" "?c < 64" by simp_all
    have "utf8_code_point [0xE0 + ?a, 0x80 + ?b, 0x80 + ?c] = Some (?a * 0x1000 + ?b * 0x40 + ?c)"
    proof (rule code_point_3)
      show "?a < 16" by fact
      show "?b < 64" "?c < 64" by simp_all
      show "0x800 \<le> ?a * 0x1000 + ?b * 0x40 + ?c"
        unfolding octets_3 by fact
      show "\<not> (0xD800 \<le> ?a * 0x1000 + ?b * 0x40 + ?c \<and> ?a * 0x1000 + ?b * 0x40 + ?c \<le> 0xDFFF)"
        unfolding octets_3 using assms by (simp add: scalar_def)
    qed
    then have v: "utf8_code_point [0xE0 + ?a, 0x80 + ?b, 0x80 + ?c] = Some cp"
      by (simp only: octets_3)
    have "Decode (concat (map percent [0xE0 + ?a, 0x80 + ?b, 0x80 + ?c]) @ rest) =
          prepend (UTF16EncodeCodePoint cp) (Decode rest)"
      using a v m by (intro Decode_multi) (simp_all add: leading_ones_def mod64_lt del: utf8_code_point.simps)
    then show ?thesis by (simp add: escape_def o)
  next
    case 4
    let ?a = "cp div 0x40000" and ?b = "cp div 0x1000 mod 0x40"
      and ?c = "cp div 0x40 mod 0x40" and ?d = "cp mod 0x40"
    have o: "utf8_octets cp = [0xF0 + ?a, 0x80 + ?b, 0x80 + ?c, 0x80 + ?d]"
      using 4 by (simp add: utf8_octets_def)
    have a: "?a < 8" using 4 by (simp add: less_mult_imp_div_less)
    have m: "?b < 64" "?c < 64" "?d < 64" by simp_all
    have "utf8_code_point [0xF0 + ?a, 0x80 + ?b, 0x80 + ?c, 0x80 + ?d] =
            Some (?a * 0x40000 + ?b * 0x1000 + ?c * 0x40 + ?d)"
    proof (rule code_point_4)
      show "?a < 8" by fact
      show "?b < 64" "?c < 64" "?d < 64" by simp_all
      show "0x10000 \<le> ?a * 0x40000 + ?b * 0x1000 + ?c * 0x40 + ?d"
        unfolding octets_4 by fact
      show "?a * 0x40000 + ?b * 0x1000 + ?c * 0x40 + ?d \<le> 0x10FFFF"
        unfolding octets_4 using 4 by simp
    qed
    then have v: "utf8_code_point [0xF0 + ?a, 0x80 + ?b, 0x80 + ?c, 0x80 + ?d] = Some cp"
      by (simp only: octets_4)
    have "Decode (concat (map percent [0xF0 + ?a, 0x80 + ?b, 0x80 + ?c, 0x80 + ?d]) @ rest) =
          prepend (UTF16EncodeCodePoint cp) (Decode rest)"
      using a v m by (intro Decode_multi) (simp_all add: leading_ones_def mod64_lt del: utf8_code_point.simps)
    then show ?thesis by (simp add: escape_def o)
  qed
qed


lemma unit_scalar:
  assumes "\<not> is_lead c" "\<not> is_trail c"
  shows "scalar (unat c)" "UTF16EncodeCodePoint (unat c) = [c]"
proof -
  have "unat c < 2 ^ 16" using unsigned_less [of c, where 'a = nat] by simp
  then have le: "unat c \<le> 0xFFFF" by simp
  from assms show "scalar (unat c)"
    using le by (auto simp: scalar_def is_lead_def is_trail_def word_le_nat_alt)
  show "UTF16EncodeCodePoint (unat c) = [c]"
    using le by (simp add: UTF16EncodeCodePoint_def)
qed

lemma pair_scalar:
  assumes "is_lead c" "is_trail d"
  shows "scalar (UTF16SurrogatePairToCodePoint c d)"
    "UTF16EncodeCodePoint (UTF16SurrogatePairToCodePoint c d) = [c, d]"
proof -
  from assms have c: "0xD800 \<le> unat c" "unat c \<le> 0xDBFF" and d: "0xDC00 \<le> unat d" "unat d \<le> 0xDFFF"
    by (simp_all add: is_lead_def is_trail_def word_le_nat_alt)
  define x where "x = unat c - 0xD800"
  define y where "y = unat d - 0xDC00"
  have x: "x < 0x400" "unat c = x + 0xD800" and y: "y < 0x400" "unat d = y + 0xDC00"
    using c d by (simp_all add: x_def y_def)
  have cp: "UTF16SurrogatePairToCodePoint c d = x * 0x400 + y + 0x10000"
    by (simp add: UTF16SurrogatePairToCodePoint_def x_def y_def)
  show "scalar (UTF16SurrogatePairToCodePoint c d)"
    using x(1) y(1) by (simp add: cp scalar_def)
  have "(x * 0x400 + y) div 0x400 = x" "(x * 0x400 + y) mod 0x400 = y"
    using y(1) by simp_all
  then have "UTF16EncodeCodePoint (UTF16SurrogatePairToCodePoint c d) =
      [of_nat (unat c), of_nat (unat d)]"
    by (simp add: cp UTF16EncodeCodePoint_def x(2) y(2))
  then show "UTF16EncodeCodePoint (UTF16SurrogatePairToCodePoint c d) = [c, d]"
    by simp
qed

lemma unescaped_plain: "unescaped c \<Longrightarrow> c \<noteq> 0x25 \<and> \<not> is_lead c \<and> \<not> is_trail c"
  by (auto simp: unescaped_def is_lead_def is_trail_def word_le_nat_alt)

lemma Decode_Encode: "Encode p = Inr e \<Longrightarrow> Decode e = Inr p"
proof (induction p arbitrary: e rule: Encode.induct)
  case 1
  then show ?case by simp
next
  case (2 c cs)
  show ?case
  proof (cases "unescaped c")
    case True
    with 2(4) obtain e' where e: "Encode cs = Inr e'" "e = c # e'"
      by (auto simp: prepend_def split: sum.splits)
    with 2(1) [OF True] True show ?thesis
      by (simp add: unescaped_plain prepend_def)
  next
    case False
    show ?thesis
    proof (cases "\<not> is_lead c \<and> \<not> is_trail c")
      case True
      with 2(4) False obtain e' where e: "Encode cs = Inr e'" "e = escape (unat c) @ e'"
        by (auto simp: prepend_def split: sum.splits)
      have "Decode e' = Inr cs" using 2(2) [OF False True] e by simp
      then show ?thesis
        using True by (simp add: e Decode_escape unit_scalar prepend_def)
    next
      case surrogate: False
      with 2(4) False obtain d ds e' where cs: "cs = d # ds" and l: "is_lead c" "is_trail d"
        and e: "Encode ds = Inr e'" "e = escape (UTF16SurrogatePairToCodePoint c d) @ e'"
        by (auto simp: prepend_def split: sum.splits list.splits if_splits)
      have "\<not> is_trail c" using l(1) by (auto simp: is_lead_def is_trail_def word_le_nat_alt)
      with 2(3) [OF False surrogate _ cs] l e have "Decode e' = Inr ds" by simp
      then show ?thesis
        using l by (simp add: e cs Decode_escape pair_scalar prepend_def)
    qed
  qed
qed

lemma Encode_well_formed: "well_formed p \<Longrightarrow> \<exists>e. Encode p = Inr e"
proof (induction p rule: Encode.induct)
  case 1
  then show ?case by simp
next
  case (2 c cs)
  show ?case
  proof (cases "unescaped c")
    case True
    with 2(1) [OF True] 2(4) unescaped_plain [OF True] show ?thesis
      by (auto simp: prepend_def)
  next
    case False
    show ?thesis
    proof (cases "\<not> is_lead c \<and> \<not> is_trail c")
      case True
      with 2 False show ?thesis by (auto simp: prepend_def)
    next
      case surrogate: False
      with 2(4) obtain d ds where cs: "cs = d # ds" and l: "is_lead c" "is_trail d" "well_formed ds"
        by (auto split: list.splits if_splits)
      have nt: "\<not> is_trail c" using l(1) by (auto simp: is_lead_def is_trail_def word_le_nat_alt)
      from 2(3) [OF False surrogate nt cs] l obtain e' where "Encode ds = Inr e'" by auto
      with False surrogate nt cs l show ?thesis
        by (simp add: prepend_def)
    qed
  qed
qed


lemma lead_not_trail: "is_lead c \<Longrightarrow> \<not> is_trail c"
  by (auto simp: is_lead_def is_trail_def word_le_nat_alt)

lemma well_formed_split:
  "well_formed (a @ c # b) \<Longrightarrow> \<not> is_lead c \<Longrightarrow> \<not> is_trail c \<Longrightarrow>
   well_formed a \<and> well_formed b"
proof (induction a rule: well_formed.induct)
  case 1
  then show ?case by simp
next
  case (2 x xs)
  show ?case
  proof (cases "is_lead x")
    case True
    with 2(3,5) obtain d xs' where xs: "xs = d # xs'" and d: "is_trail d"
      and wf: "well_formed (xs' @ c # b)"
      by (cases xs) auto
    from 2(1) [OF True xs wf 2(4,5)] True d xs show ?thesis by simp
  next
    case False
    with 2(3) have "\<not> is_trail x" "well_formed (xs @ c # b)" by simp_all
    with 2(2) [OF False _ 2(4,5)] False show ?thesis by simp
  qed
qed

lemma Encode_append:
  "Encode a = Inr ea \<Longrightarrow> Encode b = Inr eb \<Longrightarrow> Encode (a @ b) = Inr (ea @ eb)"
proof (induction a arbitrary: ea rule: Encode.induct)
  case 1
  then show ?case by simp
next
  case (2 c cs)
  show ?case
  proof (cases "unescaped c")
    case True
    with 2(4) obtain e' where e: "Encode cs = Inr e'" "ea = c # e'"
      by (auto simp: prepend_def split: sum.splits)
    with 2(1) [OF True e(1) 2(5)] True show ?thesis
      by (simp add: prepend_def)
  next
    case False
    show ?thesis
    proof (cases "\<not> is_lead c \<and> \<not> is_trail c")
      case True
      with 2(4) False obtain e' where e: "Encode cs = Inr e'" "ea = escape (unat c) @ e'"
        by (auto simp: prepend_def split: sum.splits)
      with 2(2) [OF False True e(1) 2(5)] False True show ?thesis
        by (simp add: prepend_def)
    next
      case surrogate: False
      with 2(4) False obtain d ds e' where cs: "cs = d # ds" and l: "is_lead c" "is_trail d"
        and e: "Encode ds = Inr e'" "ea = escape (UTF16SurrogatePairToCodePoint c d) @ e'"
        by (auto simp: prepend_def split: sum.splits list.splits if_splits)
      have nt: "\<not> is_trail c" using l(1) by (rule lead_not_trail)
      from 2(3) [OF False surrogate nt cs _ e(1) 2(5)] l
      have "Encode (ds @ b) = Inr (e' @ eb)" by simp
      with False surrogate nt cs l e show ?thesis
        by (simp add: prepend_def)
    qed
  qed
qed

lemma Encode_space: "Encode (0x20 # b) = prepend (js ''%20'') (Encode b)"
  by (simp add: unescaped_def is_lead_def is_trail_def escape_def utf8_octets_def percent_def
      hex_digit_def js_def)

text \<open>
  C10 (download URL), as amended: for every path in which every surrogate is paired,
  \<open>downloadUrl\<close> returns the base URL followed by \<open>/download?path=\<close> and the
  percent-encoding of the path; decoding the query value gives the path back; and a space
  of the path is written \<open>%20\<close>, between the encodings of what stands before and after
  it.
\<close>

theorem C10_download_url:
  assumes "well_formed p"
  shows "\<exists>encoded.
           encodeURIComponent p = Inr encoded \<and>
           downloadUrl env p = Inr (API_BASE env @ js ''/download?path='' @ encoded) \<and>
           decodeURIComponent encoded = Inr p \<and>
           (\<forall>a b. p = a @ 0x20 # b \<longrightarrow>
              (\<exists>ea eb. encodeURIComponent a = Inr ea \<and> encodeURIComponent b = Inr eb \<and>
                 encoded = ea @ js ''%20'' @ eb))"
proof -
  from Encode_well_formed [OF assms] obtain encoded where enc: "Encode p = Inr encoded" ..
  have "\<exists>ea eb. Encode a = Inr ea \<and> Encode b = Inr eb \<and> encoded = ea @ js ''%20'' @ eb"
    if p: "p = a @ 0x20 # b" for a b
  proof -
    have "well_formed a \<and> well_formed b"
      using assms unfolding p
      by (rule well_formed_split) (simp_all add: is_lead_def is_trail_def)
    then obtain ea eb where e: "Encode a = Inr ea" "Encode b = Inr eb"
      using Encode_well_formed by blast
    have "Encode (0x20 # b) = Inr (js ''%20'' @ eb)"
      by (simp only: Encode_space e) (simp add: prepend_def)
    from Encode_append [OF e(1) this] enc have "encoded = ea @ js ''%20'' @ eb"
      by (simp add: p)
    with e show ?thesis by blast
  qed
  with enc Decode_Encode [OF enc] show ?thesis
    by (auto simp: encodeURIComponent_def decodeURIComponent_def downloadUrl_def)
qed

theorem C10_download_url_witness:
  "downloadUrl None (js ''a/b c.csv'') =
     Inr (js ''http://localhost:8080/download?path=a%2Fb%20c.csv'') \<and>
   decodeURIComponent (js ''a%2Fb%20c.csv'') = Inr (js ''a/b c.csv'')"
proof -
  have wf: "well_formed (js ''a/b c.csv'')" by code_simp
  have enc: "encodeURIComponent (js ''a/b c.csv'') = Inr (js ''a%2Fb%20c.csv'')" by code_simp
  have base: "API_BASE None = js ''http://localhost:8080''" by (simp add: API_BASE_def)
  from C10_download_url [OF wf, of None] obtain encoded
    where "encodeURIComponent (js ''a/b c.csv'') = Inr encoded"
      and url: "downloadUrl None (js ''a/b c.csv'') =
                  Inr (API_BASE None @ js ''/download?path='' @ encoded)"
      and dec: "decodeURIComponent encoded = Inr (js ''a/b c.csv'')"
    by blast
  then have "encoded = js ''a%2Fb%20c.csv''" by (simp only: enc sum.inject)
  with url dec show ?thesis
    by (simp add: base js_def)
qed

text \<open>
  On a path with an unpaired surrogate \<open>encodeURIComponent\<close> throws, and so does
  \<open>downloadUrl\<close>.
\<close>

theorem C10_counterexample:
  "downloadUrl None (js ''a'' @ [0xD800]) = Inl URIError"
  by code_simp

end
